theory Spec2Isabelle
  imports Main
begin

section \<open>Data model of the work tracking engine\<close>

text \<open>
  The work tracking engine of the platform: the module that creates the record of an
  asynchronous job (a "work") with its counter, updates it as connectors report, lists
  and deletes such records, and removes old completed ones. Its functions are embedded
  under their own names; the two stores they call (the search index and the counter
  store) are not part of the module and are modelled in-memory.

  Timestamps are points on a linear time axis (epoch milliseconds). The three values the
  engine writes into the \<open>status\<close> field are \<open>'wait'\<close>, \<open>'progress'\<close> and \<open>'complete'\<close>.
\<close>

type_synonym time = nat

datatype status = Wait | Progress | Complete

text \<open>An entry of the \<open>messages\<close> or \<open>errors\<close> log; only \<open>reportActionImport\<close> writes a source.\<close>

record log_entry =
  le_timestamp :: time
  le_message :: string
  le_source :: "string option"

text \<open>The document \<open>createWork\<close> indexes; \<open>updated_at\<close> is read by \<open>workToExportFile\<close>.\<close>

record work =
  internal_id :: string
  timestamp :: time
  name :: string
  entity_type :: string
  event_type :: string
  event_source_id :: string
  user_id :: string
  connector_id :: string
  status :: status
  received_time :: "time option"
  processed_time :: "time option"
  completed_time :: "time option"
  completed_number :: int
  messages :: "log_entry list"
  errors :: "log_entry list"
  updated_at :: "time option"

text \<open>The \<open>workTracing\<close> object kept in the counter store, keyed by its \<open>internal_id\<close>.\<close>

record work_tracing =
  import_expected_number :: int
  import_processed_number :: int

record user =
  u_id :: string

record connector =
  c_id :: string
  c_internal_id :: string
  c_name :: string
  c_connector_type :: string

text \<open>
  The two stores: the documents of \<open>INDEX_HISTORY\<close> in document order, and the counter
  records by job id.
\<close>

record state =
  works :: "work list"
  counters :: "string \<rightharpoonup> work_tracing"

datatype error = DocumentMissing | CounterMissing

definition ENTITY_TYPE_WORK :: string where
  "ENTITY_TYPE_WORK = ''work''"

text \<open>
  Modelled from the spec: the connector type constants of \<open>./connector\<close>, which is not among
  the sources; only that the two differ matters.
\<close>

definition CONNECTOR_INTERNAL_ENRICHMENT :: string where
  "CONNECTOR_INTERNAL_ENRICHMENT = ''INTERNAL_ENRICHMENT''"

definition CONNECTOR_INTERNAL_EXPORT_FILE :: string where
  "CONNECTOR_INTERNAL_EXPORT_FILE = ''INTERNAL_EXPORT_FILE''"

text \<open>
  Modelled from the spec: \<open>isNotEmptyField\<close> of \<open>../database/utils\<close> (a log entry is
  appended "only if message is non-empty"); an absent message is \<open>None\<close>.
\<close>

definition isNotEmptyField :: "string option \<Rightarrow> bool" where
  "isNotEmptyField message = (case message of None \<Rightarrow> False | Some m \<Rightarrow> m \<noteq> [])"

text \<open>
  A timestamp value in a condition (\<open>receivedTime ? ... : ...\<close>, \<open>if (searchAfter)\<close>): an
  absent value (\<open>undefined\<close> or \<open>null\<close>; for \<open>searchAfter\<close>, the empty string it starts as) is
  \<open>None\<close> and is false, and so is the timestamp \<open>0\<close>; every other timestamp is true.
\<close>

definition truthy :: "time option \<Rightarrow> bool" where
  "truthy v = (case v of None \<Rightarrow> False | Some t \<Rightarrow> t \<noteq> 0)"

text \<open>
  \<open>parseInt(s, 10)\<close> on the decimal string of an integer: the number (an IEEE 754 double)
  nearest to the integer, ties to the even significand, and an infinity from \<open>2 ^ 1024\<close>
  on. Integers of magnitude below \<open>2 ^ 53\<close> are kept as they are.
\<close>

datatype number = Finite int | Infinity bool

fun bitLength :: "nat \<Rightarrow> nat" where
  "bitLength n = (if n = 0 then 0 else Suc (bitLength (n div 2)))"

definition roundToDouble :: "nat \<Rightarrow> nat" where
  "roundToDouble a =
     (if bitLength a \<le> 53 then a
      else (let k = bitLength a - 53;
                q = a div 2 ^ k;
                r = a mod 2 ^ k;
                h = 2 ^ (k - 1)
            in (if r > h \<or> (r = h \<and> odd q) then q + 1 else q) * 2 ^ k))"

definition parseInt :: "int \<Rightarrow> number" where
  "parseInt i =
     (let m = roundToDouble (nat \<bar>i\<bar>)
      in if m \<ge> 2 ^ 1024 then Infinity (i < 0) else Finite (sgn i * int m))"

section \<open>The stores\<close>

subsection \<open>WorkStore\<close>

text \<open>
  Modelled from the spec: \<open>getById(jobId) -> record | null\<close> (\<open>elLoadByIds\<close> of
  \<open>../database/elasticSearch\<close>).
\<close>

definition elLoadByIds :: "state \<Rightarrow> string \<Rightarrow> string \<Rightarrow> work option" where
  "elLoadByIds st wid ty =
     find (\<lambda>w. internal_id w = wid \<and> entity_type w = ty) (works st)"

text \<open>Modelled from the spec: \<open>insert(record)\<close>; a document with the same id is replaced.\<close>

definition elIndex :: "state \<Rightarrow> work \<Rightarrow> state" where
  "elIndex st w =
     st\<lparr>works := filter (\<lambda>d. internal_id d \<noteq> internal_id w) (works st) @ [w]\<rparr>"

text \<open>
  Modelled from the spec: \<open>atomicUpdate(jobId, scriptBody, params)\<close>, one atomic
  read-modify-write of one document; the script with its parameters is the function
  applied to the document. Updating a document that does not exist is a store error.
\<close>

definition elUpdate :: "state \<Rightarrow> string \<Rightarrow> (work \<Rightarrow> work) \<Rightarrow> error + state" where
  "elUpdate st wid script =
     (if \<exists>d \<in> set (works st). internal_id d = wid
      then Inr (st\<lparr>works := map (\<lambda>d. if internal_id d = wid then script d else d) (works st)\<rparr>)
      else Inl DocumentMissing)"

text \<open>
  Modelled from the spec: \<open>deleteByRecords([record...])\<close> (\<open>elDeleteInstanceIds\<close>): the
  documents whose id is the \<open>internal_id\<close> of one of the given objects are removed. An
  object is given by its document fields, \<open>None\<close> when it carries none (then its
  \<open>internal_id\<close> is undefined and it names no document).
\<close>

definition elDeleteInstanceIds :: "state \<Rightarrow> work option list \<Rightarrow> state" where
  "elDeleteInstanceIds st instances =
     st\<lparr>works := filter (\<lambda>d. Some (internal_id d) \<notin> set (map (map_option internal_id) instances))
                     (works st)\<rparr>"

text \<open>
  Modelled from the spec: \<open>paginate(filters, orderBy, orderMode, first) -> [record]\<close>
  (\<open>elPaginate\<close>), for the ordering both callers below ask for: by \<open>timestamp\<close>,
  descending. A filter \<open>{key, values}\<close> keeps the documents whose field \<open>key\<close> has one of
  the values.
\<close>

record es_filter =
  f_key :: string
  f_values :: "string list"

definition fieldValue :: "work \<Rightarrow> string \<Rightarrow> string option" where
  "fieldValue w k =
     (if k = ''event_source_id'' then Some (event_source_id w)
      else if k = ''event_type'' then Some (event_type w)
      else if k = ''connector_id'' then Some (connector_id w)
      else None)"

definition matchFilter :: "work \<Rightarrow> es_filter \<Rightarrow> bool" where
  "matchFilter w f =
     (case fieldValue w (f_key f) of None \<Rightarrow> False | Some v \<Rightarrow> v \<in> set (f_values f))"

definition elPaginate :: "state \<Rightarrow> string \<Rightarrow> nat \<Rightarrow> es_filter list \<Rightarrow> work list" where
  "elPaginate st ty first filters =
     take first (rev (sort_key timestamp
       (filter (\<lambda>w. entity_type w = ty \<and> (\<forall>f \<in> set filters. matchFilter w f)) (works st))))"

text \<open>
  Modelled from the spec: the search of the retention scan (\<open>el.search\<close>, the store's
  client), "keyset (cursor) pagination over job records filtered to connectorId = X AND
  status = Complete AND completedTime <= horizon, ordered by completedTime descending".
  The hits are the documents that match the three \<open>must\<close> clauses, sorted by
  \<open>completed_time\<close> descending (the sort names no second key); with a cursor
  \<open>search_after\<close>, those whose sort value comes strictly after the cursor in that order;
  at most \<open>size\<close> of them; each hit carries its sort value. The store resolves the
  date-math expression of the range clause; \<open>dm\<close> is that resolution.
\<close>

record query =
  q_connector_id :: string
  q_status :: status
  q_completed_lte :: string

definition matchQuery :: "(string \<Rightarrow> time) \<Rightarrow> query \<Rightarrow> work \<Rightarrow> bool" where
  "matchQuery dm q w =
     (connector_id w = q_connector_id q \<and> status w = q_status q \<and>
      (case completed_time w of None \<Rightarrow> False | Some t \<Rightarrow> t \<le> dm (q_completed_lte q)))"

definition sortValue :: "work \<Rightarrow> time" where
  "sortValue w = (case completed_time w of None \<Rightarrow> 0 | Some t \<Rightarrow> t)"

definition el_search ::
  "(string \<Rightarrow> time) \<Rightarrow> state \<Rightarrow> query \<Rightarrow> nat \<Rightarrow> time option \<Rightarrow> (work \<times> time) list" where
  "el_search dm st q sz search_after =
     (let ordered = rev (sort_key sortValue (filter (matchQuery dm q) (works st)));
          page = (case search_after of
                    None \<Rightarrow> ordered
                  | Some c \<Rightarrow> filter (\<lambda>w. sortValue w < c) ordered)
      in map (\<lambda>w. (w, sortValue w)) (take sz page))"

subsection \<open>CounterStore\<close>

text \<open>Modelled from the spec: \<open>create(jobId, expected, processed)\<close>.\<close>

definition redisCreateWork :: "state \<Rightarrow> string \<Rightarrow> work_tracing \<Rightarrow> state" where
  "redisCreateWork st wid tracing = st\<lparr>counters := (counters st)(wid \<mapsto> tracing)\<rparr>"

text \<open>
  Modelled from the spec: \<open>get(jobId) -> {expected, processed}\<close>; reading a counter that
  does not exist is a store error.
\<close>

definition redisGetWork :: "state \<Rightarrow> string \<Rightarrow> error + work_tracing" where
  "redisGetWork st wid =
     (case counters st wid of None \<Rightarrow> Inl CounterMissing | Some c \<Rightarrow> Inr c)"

text \<open>
  Modelled from the spec: \<open>incrementAndCompare(jobId) -> {isComplete: bool, total: int}\<close>,
  a single atomic operation: "increment processedCount and report whether
  processedCount == expectedCount, plus the new total".
\<close>

definition redisUpdateWorkFigures :: "state \<Rightarrow> string \<Rightarrow> error + (state \<times> bool \<times> int)" where
  "redisUpdateWorkFigures st wid =
     (case counters st wid of
        None \<Rightarrow> Inl CounterMissing
      | Some c \<Rightarrow>
          (let pn = import_processed_number c + 1;
               c' = c\<lparr>import_processed_number := pn\<rparr>
           in Inr (st\<lparr>counters := (counters st)(wid \<mapsto> c')\<rparr>,
                   pn = import_expected_number c, pn)))"

text \<open>
  Modelled from the spec: \<open>delete(jobId | [jobId...])\<close>; an undefined id (\<open>None\<close>) names no
  counter.
\<close>

definition redisDeleteWork :: "state \<Rightarrow> string option list \<Rightarrow> state" where
  "redisDeleteWork st ids =
     st\<lparr>counters := (\<lambda>k. if Some k \<in> set ids then None else counters st k)\<rparr>"

section \<open>Progress reporting\<close>

text \<open>
  Every operation takes the stores \<open>st\<close> and the value \<open>nw\<close> that its call of \<open>now()\<close>
  returns, besides the arguments of the source function.
\<close>

definition isWorkCompleted :: "state \<Rightarrow> string \<Rightarrow> error + (bool \<times> int)" where
  "isWorkCompleted st workId =
     (case redisGetWork st workId of
        Inl e \<Rightarrow> Inl e
      | Inr c \<Rightarrow>
          (let pn = import_processed_number c; en = import_expected_number c
           in Inr (parseInt pn = parseInt en, pn)))"

text \<open>
  The script \<open>reportActionImport\<close> assembles: the completion assignments when
  \<open>isComplete\<close>, then the append to \<open>errors\<close> when \<open>errorData\<close> is given.
\<close>

definition reportActionScript ::
  "bool \<Rightarrow> int \<Rightarrow> (string \<times> string) option \<Rightarrow> time \<Rightarrow> work \<Rightarrow> work" where
  "reportActionScript isComplete tot errorData nw w =
     (let w1 = (if isComplete
                then w\<lparr>status := Complete, completed_number := tot, completed_time := Some nw\<rparr>
                else w)
      in case errorData of
           None \<Rightarrow> w1
         | Some (err, source) \<Rightarrow>
             w1\<lparr>errors := errors w1 @
                  [\<lparr>le_timestamp = nw, le_message = err, le_source = Some source\<rparr>]\<rparr>)"

text \<open>The part of \<open>reportActionImport\<close> after the counter operation has answered.\<close>

definition reportActionWrite ::
  "state \<Rightarrow> string \<Rightarrow> (string \<times> string) option \<Rightarrow> time \<Rightarrow> bool \<Rightarrow> int \<Rightarrow> error + state" where
  "reportActionWrite st workId errorData nw isComplete tot =
     (if isComplete \<or> errorData \<noteq> None
      then elUpdate st workId (reportActionScript isComplete tot errorData nw)
      else Inr st)"

text \<open>
  The reporting operations return the stores as the call leaves them, also when it
  fails, and the returned \<open>workId\<close> or the error raised.
\<close>

definition reportActionImport ::
  "state \<Rightarrow> time \<Rightarrow> user \<Rightarrow> string \<Rightarrow> (string \<times> string) option \<Rightarrow> state \<times> (error + string)" where
  "reportActionImport st nw usr workId errorData =
     (case redisUpdateWorkFigures st workId of
        Inl e \<Rightarrow> (st, Inl e)
      | Inr (st1, isComplete, tot) \<Rightarrow>
          (case reportActionWrite st1 workId errorData nw isComplete tot of
             Inl e \<Rightarrow> (st1, Inl e)
           | Inr st2 \<Rightarrow> (st2, Inr workId)))"

definition updateReceivedScript :: "time \<Rightarrow> string option \<Rightarrow> work \<Rightarrow> work" where
  "updateReceivedScript nw message w =
     (let w1 = w\<lparr>status := Progress, received_time := Some nw\<rparr>
      in if isNotEmptyField message
         then w1\<lparr>messages := messages w1 @
                   [\<lparr>le_timestamp = nw, le_message = the message, le_source = None\<rparr>]\<rparr>
         else w1)"

definition updateReceivedTime ::
  "state \<Rightarrow> time \<Rightarrow> user \<Rightarrow> string \<Rightarrow> string option \<Rightarrow> state \<times> (error + string)" where
  "updateReceivedTime st nw usr workId message =
     (case elUpdate st workId (updateReceivedScript nw message) of
        Inl e \<Rightarrow> (st, Inl e)
      | Inr st1 \<Rightarrow> (st1, Inr workId))"

definition updateProcessedScript ::
  "time \<Rightarrow> bool \<Rightarrow> int \<Rightarrow> string option \<Rightarrow> bool \<Rightarrow> work \<Rightarrow> work" where
  "updateProcessedScript nw isComplete tot message inError w =
     (let w1 = w\<lparr>processed_time := Some nw\<rparr>;
          w2 = (if isComplete
                then w1\<lparr>status := Complete, completed_number := tot, completed_time := Some nw\<rparr>
                else w1);
          entry = \<lparr>le_timestamp = nw, le_message = the message, le_source = None\<rparr>
      in if isNotEmptyField message
         then (if inError then w2\<lparr>errors := errors w2 @ [entry]\<rparr>
               else w2\<lparr>messages := messages w2 @ [entry]\<rparr>)
         else w2)"

definition updateProcessedTime ::
  "state \<Rightarrow> time \<Rightarrow> user \<Rightarrow> string \<Rightarrow> string option \<Rightarrow> bool \<Rightarrow> state \<times> (error + string)" where
  "updateProcessedTime st nw usr workId message inError =
     (case isWorkCompleted st workId of
        Inl e \<Rightarrow> (st, Inl e)
      | Inr (isComplete, tot) \<Rightarrow>
          (case elUpdate st workId (updateProcessedScript nw isComplete tot message inError) of
             Inl e \<Rightarrow> (st, Inl e)
           | Inr st1 \<Rightarrow> (st1, Inr workId)))"


section \<open>Listing, projection and deletion\<close>

text \<open>
  The optional arguments of \<open>worksForSource\<close>; \<open>None\<close> is an argument left out, for which the
  destructuring default applies.
\<close>

record works_args =
  a_first :: "nat option"
  a_filters :: "es_filter list option"
  a_type :: "string option"

definition noArgs :: works_args where
  "noArgs = \<lparr>a_first = None, a_filters = None, a_type = None\<rparr>"

definition worksForSource :: "state \<Rightarrow> string \<Rightarrow> works_args \<Rightarrow> work list" where
  "worksForSource st sourceId args =
     (let first = (case a_first args of None \<Rightarrow> 10 | Some n \<Rightarrow> n);
          filters = (case a_filters args of None \<Rightarrow> [] | Some fs \<Rightarrow> fs);
          basicFilters =
            [\<lparr>f_key = ''event_source_id'', f_values = [sourceId]\<rparr>] @
            (case a_type args of
               None \<Rightarrow> []
             | Some ty \<Rightarrow> if ty \<noteq> [] then [\<lparr>f_key = ''event_type'', f_values = [ty]\<rparr>] else [])
      in elPaginate st ENTITY_TYPE_WORK first (basicFilters @ filters))"

record meta_data =
  md_messages :: "log_entry list"
  md_errors :: "log_entry list"

record export_file =
  ef_id :: string
  ef_name :: string
  ef_size :: nat
  ef_lastModified :: time
  ef_lastModifiedSinceMin :: int
  ef_uploadStatus :: status
  ef_metaData :: meta_data

text \<open>
  The two time helpers \<open>moment(...).toDate()\<close> and \<open>sinceNowInMinutes\<close> are not among the
  sources and read the clock; they are parameters.
\<close>

definition workToExportFile ::
  "(time option \<Rightarrow> time) \<Rightarrow> (time option \<Rightarrow> int) \<Rightarrow> work \<Rightarrow> export_file" where
  "workToExportFile toDate sinceNowInMinutes w =
     \<lparr>ef_id = internal_id w,
      ef_name = (if name w \<noteq> [] then name w else ''Unknown''),
      ef_size = 0,
      ef_lastModified = toDate (updated_at w),
      ef_lastModifiedSinceMin = sinceNowInMinutes (updated_at w),
      ef_uploadStatus = status w,
      ef_metaData = \<lparr>md_messages = messages w, md_errors = errors w\<rparr>\<rparr>"

definition loadExportWorksAsProgressFiles ::
  "(time option \<Rightarrow> time) \<Rightarrow> (time option \<Rightarrow> int) \<Rightarrow> state \<Rightarrow> string \<Rightarrow> state \<times> export_file list" where
  "loadExportWorksAsProgressFiles toDate sinceNowInMinutes st sourceId =
     (let ws = worksForSource st sourceId
                 \<lparr>a_first = Some 10, a_filters = None, a_type = Some CONNECTOR_INTERNAL_EXPORT_FILE\<rparr>;
          filterSuccessCompleted = filter (\<lambda>w. status w \<noteq> Complete \<or> length (errors w) > 0) ws
      in (st, map (workToExportFile toDate sinceNowInMinutes) filterSuccessCompleted))"

text \<open>
  \<open>loadWorkById\<close> returns the looked-up object with \<open>id\<close> set: the id, and the document
  fields when the lookup found a document.
\<close>

definition loadWorkById :: "state \<Rightarrow> string \<Rightarrow> string \<times> work option" where
  "loadWorkById st workId =
     (let action = elLoadByIds st workId ENTITY_TYPE_WORK in (workId, action))"

definition deleteWorkRaw :: "state \<Rightarrow> work option \<Rightarrow> state \<times> string option" where
  "deleteWorkRaw st wk =
     (let st1 = elDeleteInstanceIds st [wk];
          st2 = redisDeleteWork st1 [map_option internal_id wk]
      in (st2, map_option internal_id wk))"

definition deleteWork :: "state \<Rightarrow> string \<Rightarrow> state \<times> string option" where
  "deleteWork st workId =
     (let wk = loadWorkById st workId in deleteWorkRaw st (snd wk))"

text \<open>
  \<open>Promise.all\<close> over the deletions: they touch different keys, so they are run here one
  after the other, in the order of the list.
\<close>

definition deleteWorkForFile :: "state \<Rightarrow> string \<Rightarrow> state \<times> bool" where
  "deleteWorkForFile st fileId =
     (let ws = worksForSource st fileId noArgs
      in (foldl (\<lambda>s w. fst (deleteWorkRaw s (Some w))) st ws, True))"

section \<open>Retention scan and creation\<close>

definition paginationCount :: nat where
  "paginationCount = 500"

definition rangeToKeep :: "connector \<Rightarrow> string" where
  "rangeToKeep connector =
     (if c_connector_type connector = CONNECTOR_INTERNAL_ENRICHMENT then ''now-2d/d''
      else ''now-30d/d'')"

definition retentionQuery :: "connector \<Rightarrow> query" where
  "retentionQuery connector =
     \<lparr>q_connector_id = c_id connector, q_status = Complete,
      q_completed_lte = rangeToKeep connector\<rparr>"

text \<open>The body of the loop for a page with hits: the counters first, then the documents.\<close>

definition deletePage :: "state \<Rightarrow> (work \<times> time) list \<Rightarrow> state" where
  "deletePage st hits =
     (let ws = map fst hits;
          ids = map internal_id ws;
          st1 = redisDeleteWork st (map Some ids)
      in elDeleteInstanceIds st1 (map Some ws))"

text \<open>
  \<open>searchAfter\<close> starts as the empty string (\<open>None\<close>) and then holds a sort value, a
  number; \<open>if (searchAfter)\<close> is false for the empty string and for \<open>0\<close>.
\<close>

definition cursorOf :: "time option \<Rightarrow> time option" where
  "cursorOf searchAfter = (if truthy searchAfter then searchAfter else None)"

lemma el_search_subset: "fst ` set (el_search dm st q sz sa) \<subseteq> set (works st)"
  by (auto simp: el_search_def Let_def split: option.splits dest!: in_set_takeD)

lemma deletePage_shrinks:
  assumes "hits = el_search dm st q sz sa" and "length hits \<noteq> 0"
  shows "length (works (deletePage st hits)) < length (works st)"
proof -
  from assms(2) obtain h where h: "h \<in> set hits" by (cases hits) auto
  with assms(1) have "fst h \<in> set (works st)" using el_search_subset by blast
  moreover have "Some (internal_id (fst h)) \<in> set (map (map_option internal_id) (map Some (map fst hits)))"
    using h by (auto simp: image_iff)
  ultimately show ?thesis
    by (auto simp: deletePage_def Let_def elDeleteInstanceIds_def redisDeleteWork_def
        intro!: length_filter_less)
qed

text \<open>
  The \<open>while (hasNextPage)\<close> loop of \<open>deleteOldCompletedWorks\<close>, with the page size as a
  parameter. \<open>counter\<close> and \<open>totalToDelete\<close> only feed the log line and are left out; a
  failing search (the \<open>DatabaseError\<close> of the \<open>catch\<close>) is a failure of the store itself,
  which the stores above do not have. A page with hits removes at least one document,
  so the loop ends.
\<close>

function scanLoop :: "(string \<Rightarrow> time) \<Rightarrow> query \<Rightarrow> nat \<Rightarrow> state \<Rightarrow> time option \<Rightarrow> state" where
  "scanLoop dm q sz st searchAfter =
     (let hits = el_search dm st q sz (cursorOf searchAfter)
      in if length hits = 0 then st
         else scanLoop dm q sz (deletePage st hits) (Some (snd (last hits))))"
  by pat_completeness auto
termination
  by (relation "measure (\<lambda>(dm, q, sz, st, sa). length (works st))")
     (auto intro: deletePage_shrinks)

declare scanLoop.simps [simp del]

definition deleteOldCompletedWorks :: "(string \<Rightarrow> time) \<Rightarrow> state \<Rightarrow> connector \<Rightarrow> state" where
  "deleteOldCompletedWorks dm st connector =
     scanLoop dm (retentionQuery connector) paginationCount st None"

text \<open>
  \<open>generateWorkId()\<close> and \<open>now()\<close> are the parameters \<open>workId\<close> and \<open>nw\<close>. The result is the
  stores and the object \<open>loadWorkById\<close> returns.
\<close>

definition createWork ::
  "(string \<Rightarrow> time) \<Rightarrow> state \<Rightarrow> time \<Rightarrow> string \<Rightarrow> user \<Rightarrow> connector \<Rightarrow> string \<Rightarrow> string \<Rightarrow>
     time option \<Rightarrow> state \<times> string \<times> work option" where
  "createWork dm st nw workId usr connector friendlyName sourceId receivedTime =
     (let st0 = deleteOldCompletedWorks dm st connector;
          wk = \<lparr>internal_id = workId,
                timestamp = nw,
                name = friendlyName,
                entity_type = ENTITY_TYPE_WORK,
                event_type = c_connector_type connector,
                event_source_id = sourceId,
                user_id = u_id usr,
                connector_id = c_internal_id connector,
                status = (if truthy receivedTime then Progress else Wait),
                received_time = receivedTime,
                processed_time = None,
                completed_time = None,
                completed_number = 0,
                messages = [],
                errors = [],
                updated_at = None\<rparr>;
          workTracing = \<lparr>import_expected_number = 0, import_processed_number = 0\<rparr>;
          st1 = redisCreateWork st0 workId workTracing;
          st2 = elIndex st1 wk
      in (st2, loadWorkById st2 workId))"

section \<open>Observing a job record\<close>

text \<open>The job record with a given id, as a lookup by id sees it.\<close>

definition jobRecord :: "state \<Rightarrow> string \<Rightarrow> work option" where
  "jobRecord st wid = find (\<lambda>d. internal_id d = wid) (works st)"

section \<open>Sequences of operations\<close>

text \<open>
  The order of the status values, a call of one of the four operations that write a
  status, and a sequence of such calls run one after the other, each on the stores the
  previous one left (a failed call leaves what it had written before it failed).
\<close>

fun statusRank :: "status \<Rightarrow> nat" where
  "statusRank Wait = 0"
| "statusRank Progress = 1"
| "statusRank Complete = 2"

datatype op =
    CreateWork time string user connector string string "time option"
  | ReportReceived time user string "string option"
  | ReportProcessed time user string "string option" bool
  | ReportAction time user string "(string \<times> string) option"

fun applyOp :: "(string \<Rightarrow> time) \<Rightarrow> state \<Rightarrow> op \<Rightarrow> state" where
  "applyOp dm st (CreateWork nw workId usr connector friendlyName sourceId receivedTime) =
     fst (createWork dm st nw workId usr connector friendlyName sourceId receivedTime)"
| "applyOp dm st (ReportReceived nw usr workId message) =
     fst (updateReceivedTime st nw usr workId message)"
| "applyOp dm st (ReportProcessed nw usr workId message inError) =
     fst (updateProcessedTime st nw usr workId message inError)"
| "applyOp dm st (ReportAction nw usr workId errorData) =
     fst (reportActionImport st nw usr workId errorData)"

definition runOps :: "(string \<Rightarrow> time) \<Rightarrow> state \<Rightarrow> op list \<Rightarrow> state" where
  "runOps dm st ops = foldl (applyOp dm) st ops"

text \<open>
  The one call that sets the job \<open>k\<close> back: \<open>updateReceivedTime\<close> on \<open>k\<close> while the status
  of \<open>k\<close> is \<open>complete\<close>. A sequence is free of it when no call of the sequence is such a
  call on the stores it meets.
\<close>

fun regresses :: "state \<Rightarrow> op \<Rightarrow> string \<Rightarrow> bool" where
  "regresses st (ReportReceived nw usr workId message) k =
     (workId = k \<and> map_option status (jobRecord st k) = Some Complete)"
| "regresses st _ k = False"

fun noRegress :: "(string \<Rightarrow> time) \<Rightarrow> state \<Rightarrow> op list \<Rightarrow> string \<Rightarrow> bool" where
  "noRegress dm st [] k = True"
| "noRegress dm st (x # ops) k =
     (\<not> regresses st x k \<and> noRegress dm (applyOp dm st x) ops k)"

fun createdIds :: "op list \<Rightarrow> string list" where
  "createdIds [] = []"
| "createdIds (CreateWork nw workId usr connector friendlyName sourceId receivedTime # ops) =
     workId # createdIds ops"
| "createdIds (_ # ops) = createdIds ops"

text \<open>
  A job record at \<open>k\<close> in \<open>st'\<close> was at \<open>k\<close> in \<open>st\<close> too, and its status has not moved
  backward.
\<close>

definition forwardAt :: "state \<Rightarrow> state \<Rightarrow> string \<Rightarrow> bool" where
  "forwardAt st st' k =
     (case jobRecord st' k of
        None \<Rightarrow> True
      | Some w' \<Rightarrow>
          (case jobRecord st k of
             None \<Rightarrow> False
           | Some w \<Rightarrow> statusRank (status w) \<le> statusRank (status w')))"

section \<open>Concurrent calls of \<open>reportActionImport\<close>\<close>

text \<open>
  A call of \<open>reportActionImport\<close> makes two store operations, each atomic: the counter
  operation, then (when it reported completion or \<open>errorData\<close> is given) the update of the
  job record. Concurrent calls are modelled by interleaving these operations: a call is
  \<open>Pending\<close>, then \<open>Counted\<close> with the answer of the counter operation, then \<open>Finished\<close>
  (or \<open>Failed\<close> with the error raised); a schedule names, step by step, the call that
  makes its next operation.
\<close>

record call =
  cl_now :: time
  cl_user :: user
  cl_workId :: string
  cl_errorData :: "(string \<times> string) option"

datatype phase = Pending | Counted bool int | Finished bool int | Failed error

fun stepCall :: "state \<Rightarrow> call \<Rightarrow> phase \<Rightarrow> state \<times> phase" where
  "stepCall st c Pending =
     (case redisUpdateWorkFigures st (cl_workId c) of
        Inl e \<Rightarrow> (st, Failed e)
      | Inr (st1, isComplete, tot) \<Rightarrow> (st1, Counted isComplete tot))"
| "stepCall st c (Counted isComplete tot) =
     (case reportActionWrite st (cl_workId c) (cl_errorData c) (cl_now c) isComplete tot of
        Inl e \<Rightarrow> (st, Failed e)
      | Inr st2 \<Rightarrow> (st2, Finished isComplete tot))"
| "stepCall st c (Finished isComplete tot) = (st, Finished isComplete tot)"
| "stepCall st c (Failed e) = (st, Failed e)"

fun outcome :: "string \<Rightarrow> phase \<Rightarrow> (error + string) option" where
  "outcome workId (Finished isComplete tot) = Some (Inr workId)"
| "outcome workId (Failed e) = Some (Inl e)"
| "outcome workId _ = None"

fun stepAt :: "call list \<Rightarrow> state \<times> phase list \<Rightarrow> nat \<Rightarrow> state \<times> phase list" where
  "stepAt calls (st, phs) i =
     (if i < length calls \<and> i < length phs
      then (case stepCall st (calls ! i) (phs ! i) of (st', ph') \<Rightarrow> (st', phs[i := ph']))
      else (st, phs))"

definition runSchedule :: "call list \<Rightarrow> state \<Rightarrow> nat list \<Rightarrow> state \<times> phase list" where
  "runSchedule calls st sched = foldl (stepAt calls) (st, replicate (length calls) Pending) sched"

fun answer :: "phase \<Rightarrow> (bool \<times> int) option" where
  "answer (Counted isComplete tot) = Some (isComplete, tot)"
| "answer (Finished isComplete tot) = Some (isComplete, tot)"
| "answer _ = None"

fun finished :: "phase \<Rightarrow> bool" where
  "finished (Finished isComplete tot) = True"
| "finished _ = False"

fun failed :: "phase \<Rightarrow> bool" where
  "failed (Failed e) = True"
| "failed _ = False"

fun toldComplete :: "phase \<Rightarrow> bool" where
  "toldComplete (Counted isComplete tot) = isComplete"
| "toldComplete (Finished isComplete tot) = isComplete"
| "toldComplete _ = False"

text \<open>
  What holds of the calls on the job \<open>wid\<close> in every configuration: \<open>e\<close> is the expected
  number, \<open>p0\<close> the processed number before the first call, \<open>pn\<close> the processed number
  now, \<open>w\<close> the job record now.
\<close>

definition okEach :: "string \<Rightarrow> int \<Rightarrow> int \<Rightarrow> call list \<Rightarrow> phase list \<Rightarrow> int \<Rightarrow> work \<Rightarrow> bool" where
  "okEach wid e p0 calls phs pn w =
     (\<forall>i < length calls. cl_workId (calls ! i) = wid \<longrightarrow>
        \<not> failed (phs ! i) \<and>
        (\<forall>b t. answer (phs ! i) = Some (b, t) \<longrightarrow>
           b = (t = e) \<and> p0 < t \<and> t \<le> pn \<and>
           (finished (phs ! i) \<and> b \<longrightarrow> status w = Complete \<and> completed_number w = e)))"

definition distinctTotals :: "string \<Rightarrow> call list \<Rightarrow> phase list \<Rightarrow> bool" where
  "distinctTotals wid calls phs =
     (\<forall>i < length calls. \<forall>j < length calls.
        i \<noteq> j \<and> cl_workId (calls ! i) = wid \<and> cl_workId (calls ! j) = wid \<longrightarrow>
        (\<forall>b t b' t'. answer (phs ! i) = Some (b, t) \<and> answer (phs ! j) = Some (b', t') \<longrightarrow>
           t \<noteq> t'))"

definition covered :: "string \<Rightarrow> int \<Rightarrow> call list \<Rightarrow> phase list \<Rightarrow> int \<Rightarrow> bool" where
  "covered wid p0 calls phs pn =
     (\<forall>t. p0 < t \<and> t \<le> pn \<longrightarrow>
        (\<exists>i < length calls. cl_workId (calls ! i) = wid \<and> (\<exists>b. answer (phs ! i) = Some (b, t))))"

definition raceInv :: "string \<Rightarrow> int \<Rightarrow> int \<Rightarrow> call list \<Rightarrow> state \<times> phase list \<Rightarrow> bool" where
  "raceInv wid e p0 calls cfg =
     (case cfg of (st, phs) \<Rightarrow>
        length phs = length calls \<and>
        (\<exists>c w. counters st wid = Some c \<and> jobRecord st wid = Some w \<and>
           import_expected_number c = e \<and> p0 \<le> import_processed_number c \<and>
           okEach wid e p0 calls phs (import_processed_number c) w \<and>
           distinctTotals wid calls phs \<and>
           covered wid p0 calls phs (import_processed_number c)))"

text \<open>A small store used to run the operations on concrete inputs.\<close>

definition exampleJob :: work where
  "exampleJob =
     \<lparr>internal_id = ''w1'', timestamp = 1, name = ''f.csv'', entity_type = ''work'',
      event_type = ''INTERNAL_EXPORT_FILE'', event_source_id = ''src1'', user_id = ''u1'',
      connector_id = ''c1'', status = Progress, received_time = Some 2,
      processed_time = None, completed_time = None, completed_number = 0,
      messages = [], errors = [], updated_at = None\<rparr>"

definition exampleState :: "int \<Rightarrow> int \<Rightarrow> state" where
  "exampleState en pn =
     \<lparr>works = [exampleJob],
      counters = [''w1'' \<mapsto> \<lparr>import_expected_number = en, import_processed_number = pn\<rparr>]\<rparr>"

definition exampleUser :: user where
  "exampleUser = \<lparr>u_id = ''u1''\<rparr>"

definition exampleConnector :: connector where
  "exampleConnector =
     \<lparr>c_id = ''c1'', c_internal_id = ''c1'', c_name = ''export-csv'',
      c_connector_type = ''INTERNAL_EXPORT_FILE''\<rparr>"

definition exampleDateMath :: "string \<Rightarrow> time" where
  "exampleDateMath expr = (if expr = ''now-2d/d'' then 200 else 100)"

definition exportJob :: "string \<Rightarrow> time \<Rightarrow> status \<Rightarrow> log_entry list \<Rightarrow> work" where
  "exportJob wid t s errs =
     \<lparr>internal_id = wid, timestamp = t, name = ''f.csv'', entity_type = ''work'',
      event_type = ''INTERNAL_EXPORT_FILE'', event_source_id = ''src1'', user_id = ''u1'',
      connector_id = ''c1'', status = s, received_time = None,
      processed_time = None, completed_time = None, completed_number = 0,
      messages = [], errors = errs, updated_at = None\<rparr>"

definition exportState :: state where
  "exportState =
     \<lparr>works = [exportJob ''a'' 1 Complete [], exportJob ''b'' 2 Progress [],
               exportJob ''c'' 3 Complete
                 [\<lparr>le_timestamp = 3, le_message = ''boom'', le_source = None\<rparr>]],
      counters = Map.empty\<rparr>"

text \<open>
  A sequence of calls on the job \<open>w1\<close> and on a second job \<open>w2\<close> that it creates:
  \<open>w1\<close> is marked received, then finalized, and \<open>w2\<close> is marked received before and
  after that.
\<close>

definition mixedOps :: "op list" where
  "mixedOps =
     [ReportReceived 3 exampleUser ''w1'' (Some ''got it''),
      CreateWork 4 ''w2'' exampleUser exampleConnector ''g.csv'' ''src1'' None,
      ReportReceived 5 exampleUser ''w2'' None,
      ReportAction 9 exampleUser ''w1'' None,
      ReportProcessed 10 exampleUser ''w1'' None False,
      ReportReceived 11 exampleUser ''w2'' None]"

text \<open>A finalized job.\<close>

definition completedJob :: work where
  "completedJob = exampleJob\<lparr>status := Complete, completed_number := 1, completed_time := Some 9\<rparr>"

definition completedState :: state where
  "completedState =
     \<lparr>works = [completedJob],
      counters = [''w1'' \<mapsto> \<lparr>import_expected_number = 1, import_processed_number = 1\<rparr>]\<rparr>"

text \<open>Two calls on the job \<open>w1\<close>, the second with error data.\<close>

definition callA :: call where
  "callA = \<lparr>cl_now = 9, cl_user = exampleUser, cl_workId = ''w1'', cl_errorData = None\<rparr>"

definition callB :: call where
  "callB = \<lparr>cl_now = 10, cl_user = exampleUser, cl_workId = ''w1'',
             cl_errorData = Some (''boom'', ''worker-2'')\<rparr>"

text \<open>
  One more job than a page of the retention scan holds, all of one connector, all
  completed at the same time.
\<close>

definition doneJob :: "nat \<Rightarrow> work" where
  "doneJob i =
     \<lparr>internal_id = replicate (Suc i) (CHR ''d''), timestamp = i, name = ''f.csv'',
      entity_type = ''work'', event_type = ''INTERNAL_EXPORT_FILE'', event_source_id = ''src1'',
      user_id = ''u1'', connector_id = ''c1'', status = Complete, received_time = Some 40,
      processed_time = Some 50, completed_time = Some 50, completed_number = 0,
      messages = [], errors = [], updated_at = None\<rparr>"

definition manyDoneJobs :: state where
  "manyDoneJobs =
     \<lparr>works = map doneJob [0..<Suc paginationCount],
      counters = (\<lambda>k. if k \<in> set (map (\<lambda>i. replicate (Suc i) (CHR ''d'')) [0..<Suc paginationCount])
                      then Some \<lparr>import_expected_number = 0, import_processed_number = 0\<rparr>
                      else None)\<rparr>"

text \<open>Eleven jobs on one source, the job \<open>i\<close> created at time \<open>i\<close>, each with its counter.\<close>

definition sourceJob :: "nat \<Rightarrow> work" where
  "sourceJob i =
     \<lparr>internal_id = replicate (Suc i) (CHR ''j''), timestamp = i, name = ''f.csv'',
      entity_type = ''work'', event_type = ''INTERNAL_EXPORT_FILE'', event_source_id = ''src1'',
      user_id = ''u1'', connector_id = ''c1'', status = Wait, received_time = None,
      processed_time = None, completed_time = None, completed_number = 0,
      messages = [], errors = [], updated_at = None\<rparr>"

definition elevenJobs :: state where
  "elevenJobs =
     \<lparr>works = map sourceJob [0..<11],
      counters = (\<lambda>k. if k \<in> set (map (\<lambda>i. replicate (Suc i) (CHR ''j'')) [0..<11])
                      then Some \<lparr>import_expected_number = 0, import_processed_number = 0\<rparr>
                      else None)\<rparr>"

text \<open>The document that \<open>createWork\<close> builds and indexes.\<close>

definition newWork :: "time \<Rightarrow> string \<Rightarrow> user \<Rightarrow> connector \<Rightarrow> string \<Rightarrow> string \<Rightarrow> time option \<Rightarrow> work" where
  "newWork nw workId usr connector friendlyName sourceId receivedTime = 
             \<lparr>internal_id = workId,
                timestamp = nw,
                name = friendlyName,
                entity_type = ENTITY_TYPE_WORK,
                event_type = c_connector_type connector,
                event_source_id = sourceId,
                user_id = u_id usr,
                connector_id = c_internal_id connector,
                status = (if truthy receivedTime then Progress else Wait),
                received_time = receivedTime,
                processed_time = None,
                completed_time = None,
                completed_number = 0,
                messages = [],
                errors = [],
                updated_at = None\<rparr>"

section \<open>Lemmas about the stores and the scripts\<close>

lemma find_map_script:
  assumes "\<And>d. internal_id (f d) = internal_id d"
  shows "find (\<lambda>d. internal_id d = k) (map (\<lambda>d. if internal_id d = wid then f d else d) xs) =
         (if k = wid then map_option f (find (\<lambda>d. internal_id d = wid) xs)
          else find (\<lambda>d. internal_id d = k) xs)"
  using assms by (induction xs) auto

lemma find_Some_mem: "find P xs = Some x \<Longrightarrow> x \<in> set xs \<and> P x"
  by (induction xs) (auto split: if_splits)

lemma elUpdate_jobRecord:
  assumes "\<And>d. internal_id (f d) = internal_id d" and "jobRecord st wid = Some w"
  shows "\<exists>st'. elUpdate st wid f = Inr st' \<and> counters st' = counters st \<and>
           jobRecord st' wid = Some (f w) \<and> (\<forall>k. k \<noteq> wid \<longrightarrow> jobRecord st' k = jobRecord st k)"
proof -
  from assms(2) have "\<exists>d \<in> set (works st). internal_id d = wid"
    unfolding jobRecord_def by (auto dest: find_Some_mem)
  then show ?thesis
    using assms by (simp add: elUpdate_def jobRecord_def find_map_script)
qed

lemma reportActionScript_id [simp]: "internal_id (reportActionScript c t e nw d) = internal_id d"
  by (simp add: reportActionScript_def split: option.splits)

lemma updateProcessedScript_id [simp]:
  "internal_id (updateProcessedScript nw c t m e d) = internal_id d"
  by (simp add: updateProcessedScript_def Let_def)

lemma updateReceivedScript_id [simp]: "internal_id (updateReceivedScript nw m d) = internal_id d"
  by (simp add: updateReceivedScript_def Let_def)

lemma reportActionScript_fields:
  "status (reportActionScript c t e nw d) = (if c then Complete else status d)"
  "completed_number (reportActionScript c t e nw d) = (if c then t else completed_number d)"
  "completed_time (reportActionScript c t e nw d) = (if c then Some nw else completed_time d)"
  "errors (reportActionScript c t e nw d) = errors d @
     (case e of None \<Rightarrow> []
      | Some (err, source) \<Rightarrow> [\<lparr>le_timestamp = nw, le_message = err, le_source = Some source\<rparr>])"
  by (simp_all add: reportActionScript_def split: option.splits)

lemma updateProcessedScript_fields:
  "processed_time (updateProcessedScript nw c t m e d) = Some nw"
  "status (updateProcessedScript nw c t m e d) = (if c then Complete else status d)"
  "completed_number (updateProcessedScript nw c t m e d) = (if c then t else completed_number d)"
  "completed_time (updateProcessedScript nw c t m e d) = (if c then Some nw else completed_time d)"
  "errors (updateProcessedScript nw c t m e d) = errors d @
     (if isNotEmptyField m \<and> e
      then [\<lparr>le_timestamp = nw, le_message = the m, le_source = None\<rparr>] else [])"
  "messages (updateProcessedScript nw c t m e d) = messages d @
     (if isNotEmptyField m \<and> \<not> e
      then [\<lparr>le_timestamp = nw, le_message = the m, le_source = None\<rparr>] else [])"
  by (simp_all add: updateProcessedScript_def Let_def)

lemma updateReceivedScript_fields:
  "status (updateReceivedScript nw m d) = Progress"
  "received_time (updateReceivedScript nw m d) = Some nw"
  "messages (updateReceivedScript nw m d) = messages d @
     (if isNotEmptyField m
      then [\<lparr>le_timestamp = nw, le_message = the m, le_source = None\<rparr>] else [])"
  by (simp_all add: updateReceivedScript_def Let_def)

subsection \<open>Numbers\<close>

declare bitLength.simps [simp del]

lemma bitLength_le: "n < 2 ^ k \<Longrightarrow> bitLength n \<le> k"
proof (induction k arbitrary: n)
  case 0
  then show ?case by (subst bitLength.simps) simp
next
  case (Suc k)
  show ?case
  proof (cases "n = 0")
    case True
    then show ?thesis by (subst bitLength.simps) simp
  next
    case False
    have "n div 2 < 2 ^ k" using Suc.prems by auto
    then have "bitLength (n div 2) \<le> k" by (rule Suc.IH)
    then show ?thesis using False by (subst bitLength.simps) simp
  qed
qed

lemma parseInt_exact:
  assumes "\<bar>i\<bar> < 2 ^ 53"
  shows "parseInt i = Finite i"
proof -
  let ?a = "nat \<bar>i\<bar>"
  have a: "?a < 2 ^ 53"
    using assms by (simp add: nat_less_iff)
  then have "bitLength ?a \<le> 53" by (rule bitLength_le)
  then have r: "roundToDouble ?a = ?a" by (simp add: roundToDouble_def)
  have "(2::nat) ^ 53 \<le> 2 ^ 1024" by (rule power_increasing) simp_all
  then have "\<not> ?a \<ge> 2 ^ 1024" using a by linarith
  moreover have "sgn i * int ?a = i" by (simp add: mult_sgn_abs)
  ultimately show ?thesis
    by (simp only: parseInt_def r Let_def if_False)
qed

lemma parseInt_eq_exact:
  assumes "\<bar>i\<bar> < 2 ^ 53" and "\<bar>j\<bar> < 2 ^ 53"
  shows "parseInt i = parseInt j \<longleftrightarrow> i = j"
  by (simp add: parseInt_exact [OF assms(1)] parseInt_exact [OF assms(2)])

lemma bitLength_exact: "2 ^ k \<le> n \<Longrightarrow> n < 2 ^ Suc k \<Longrightarrow> bitLength n = Suc k"
proof (induction k arbitrary: n)
  case 0
  then have "n = Suc 0" by simp
  then show ?case
    by (simp add: bitLength.simps [of "Suc 0"] bitLength.simps [of 0])
next
  case (Suc k)
  have "(0::nat) < 2 ^ Suc k" by simp
  then have "n \<noteq> 0" using Suc.prems(1) by linarith
  moreover have "2 ^ k \<le> n div 2" "n div 2 < 2 ^ Suc k"
    using Suc.prems by auto
  then have "bitLength (n div 2) = Suc k" by (rule Suc.IH)
  ultimately show ?case
    by (subst bitLength.simps) simp
qed

lemma roundToDouble_at_2_53:
  "roundToDouble 9007199254740993 = 9007199254740992"
  "roundToDouble 9007199254740992 = 9007199254740992"
proof -
  have "bitLength 9007199254740993 = Suc 53" by (rule bitLength_exact) simp_all
  then show "roundToDouble 9007199254740993 = 9007199254740992"
    by (simp add: roundToDouble_def Let_def)
  have "bitLength 9007199254740992 = Suc 53" by (rule bitLength_exact) simp_all
  then show "roundToDouble 9007199254740992 = 9007199254740992"
    by (simp add: roundToDouble_def Let_def)
qed

lemma parseInt_rounds: "parseInt 9007199254740993 = parseInt 9007199254740992"
  by (simp add: parseInt_def Let_def roundToDouble_at_2_53)

lemma updateProcessedTime_result:
  assumes counter: "counters st workId = Some c"
    and job: "jobRecord st workId = Some w"
  shows "\<exists>st1. updateProcessedTime st nw usr workId message inError = (st1, Inr workId) \<and>
           counters st1 = counters st \<and>
           jobRecord st1 workId =
             Some (updateProcessedScript nw (parseInt (import_processed_number c) = parseInt (import_expected_number c))
                     (import_processed_number c) message inError w) \<and>
           (\<forall>k. k \<noteq> workId \<longrightarrow> jobRecord st1 k = jobRecord st k)"
proof -
  let ?f = "updateProcessedScript nw (parseInt (import_processed_number c) = parseInt (import_expected_number c))
              (import_processed_number c) message inError"
  have cmp: "isWorkCompleted st workId =
      Inr (parseInt (import_processed_number c) = parseInt (import_expected_number c),
           import_processed_number c)"
    using counter by (simp add: isWorkCompleted_def redisGetWork_def Let_def)
  have "\<exists>st'. elUpdate st workId ?f = Inr st' \<and> counters st' = counters st \<and>
      jobRecord st' workId = Some (?f w) \<and> (\<forall>k. k \<noteq> workId \<longrightarrow> jobRecord st' k = jobRecord st k)"
    by (rule elUpdate_jobRecord [OF updateProcessedScript_id job])
  then obtain st1 where "elUpdate st workId ?f = Inr st1" "counters st1 = counters st"
      "jobRecord st1 workId = Some (?f w)" "\<forall>k. k \<noteq> workId \<longrightarrow> jobRecord st1 k = jobRecord st k"
    by blast
  then show ?thesis
    using cmp by (simp add: updateProcessedTime_def)
qed

lemma exampleState_job: "jobRecord (exampleState en pn) ''w1'' = Some exampleJob"
  by (simp add: jobRecord_def exampleState_def exampleJob_def)

lemma find_replaced:
  "P w \<Longrightarrow> (\<And>d. P d \<Longrightarrow> \<not> Q d) \<Longrightarrow> find P (filter Q xs @ [w]) = Some w"
  by (induction xs) auto

lemma elIndex_jobRecord: "jobRecord (elIndex st w) (internal_id w) = Some w"
  unfolding jobRecord_def elIndex_def by (simp, rule find_replaced) simp_all

lemma elIndex_load: "elLoadByIds (elIndex st w) (internal_id w) (entity_type w) = Some w"
  unfolding elLoadByIds_def elIndex_def by (simp, rule find_replaced) simp_all

lemma elIndex_counters: "counters (elIndex st w) = counters st"
  by (simp add: elIndex_def)

lemma newWork_id: "internal_id (newWork nw workId usr c f s r) = workId"
  "entity_type (newWork nw workId usr c f s r) = ENTITY_TYPE_WORK"
  by (simp_all add: newWork_def)

lemma createWork_eq:
  "createWork dm st nw workId usr connector friendlyName sourceId receivedTime =
     (elIndex (redisCreateWork (deleteOldCompletedWorks dm st connector) workId
         \<lparr>import_expected_number = 0, import_processed_number = 0\<rparr>)
        (newWork nw workId usr connector friendlyName sourceId receivedTime),
      workId, Some (newWork nw workId usr connector friendlyName sourceId receivedTime))"
proof -
  have load: "elLoadByIds (elIndex s w) workId ENTITY_TYPE_WORK = Some w"
    if "internal_id w = workId" and "entity_type w = ENTITY_TYPE_WORK" for s w
    using elIndex_load [of s w] that by simp
  show ?thesis
    unfolding createWork_def Let_def loadWorkById_def newWork_def
    by (subst load) simp_all
qed

lemma createWork_job:
  "jobRecord (fst (createWork dm st nw workId usr connector friendlyName sourceId receivedTime)) workId =
     Some (newWork nw workId usr connector friendlyName sourceId receivedTime)"
  using elIndex_jobRecord [of _ "newWork nw workId usr connector friendlyName sourceId receivedTime"]
  by (simp add: createWork_eq newWork_id)

lemma createWork_counter:
  "counters (fst (createWork dm st nw workId usr connector friendlyName sourceId receivedTime)) workId =
     Some \<lparr>import_expected_number = 0, import_processed_number = 0\<rparr>"
  by (simp add: createWork_eq elIndex_counters redisCreateWork_def)

lemma worksForSource_export:
  "worksForSource st sourceId
     \<lparr>a_first = Some 10, a_filters = None, a_type = Some CONNECTOR_INTERNAL_EXPORT_FILE\<rparr> =
   take 10 (rev (sort_key timestamp
     (filter (\<lambda>w. entity_type w = ENTITY_TYPE_WORK \<and> event_source_id w = sourceId \<and>
                  event_type w = CONNECTOR_INTERNAL_EXPORT_FILE) (works st))))"
  by (simp add: worksForSource_def elPaginate_def matchFilter_def fieldValue_def
      CONNECTOR_INTERNAL_EXPORT_FILE_def Let_def)

lemma newest_first:
  fixes xs :: "work list" and n :: nat
  defines "recent \<equiv> take n (rev (sort_key timestamp xs))"
  shows "sorted (rev (map timestamp recent))"
    and "set recent \<subseteq> set xs"
    and "length recent = min n (length xs)"
    and "\<forall>c \<in> set xs. c \<notin> set recent \<longrightarrow> (\<forall>r \<in> set recent. timestamp c \<le> timestamp r)"
proof -
  let ?ys = "sort_key timestamp xs"
  let ?k = "length xs - n"
  have rec: "recent = rev (drop ?k ?ys)"
    by (simp add: recent_def take_rev)
  have srt: "sorted_wrt (\<lambda>a b. timestamp a \<le> timestamp b) ?ys"
    using sorted_sort_key [of timestamp xs] by (simp add: sorted_map)
  have "sorted_wrt (\<lambda>a b. timestamp a \<le> timestamp b) (drop ?k ?ys)"
    using srt by (rule sorted_wrt_drop)
  then show "sorted (rev (map timestamp recent))"
    by (simp add: rec rev_map [symmetric] sorted_map)
  show "set recent \<subseteq> set xs"
    using set_drop_subset [of ?k ?ys] by (simp add: rec)
  show "length recent = min n (length xs)"
    by (simp add: rec)
  have "sorted_wrt (\<lambda>a b. timestamp a \<le> timestamp b) (take ?k ?ys @ drop ?k ?ys)"
    using srt by simp
  then have le: "\<forall>c \<in> set (take ?k ?ys). \<forall>r \<in> set (drop ?k ?ys). timestamp c \<le> timestamp r"
    unfolding sorted_wrt_append by blast
  have "set xs = set (take ?k ?ys) \<union> set (drop ?k ?ys)"
    using set_append [of "take ?k ?ys" "drop ?k ?ys"] by simp
  then show "\<forall>c \<in> set xs. c \<notin> set recent \<longrightarrow> (\<forall>r \<in> set recent. timestamp c \<le> timestamp r)"
    using le by (auto simp: rec)
qed

lemma deleteWorkRaw_works:
  "works (fst (deleteWorkRaw st (Some w))) = filter (\<lambda>d. internal_id d \<noteq> internal_id w) (works st)"
  by (simp add: deleteWorkRaw_def Let_def elDeleteInstanceIds_def redisDeleteWork_def)

lemma deleteWorkRaw_counters:
  "counters (fst (deleteWorkRaw st (Some w))) k =
     (if k = internal_id w then None else counters st k)"
  by (simp add: deleteWorkRaw_def Let_def elDeleteInstanceIds_def redisDeleteWork_def)

lemma foldl_deleteWorkRaw_works:
  "works (foldl (\<lambda>s w. fst (deleteWorkRaw s (Some w))) st ws) =
     filter (\<lambda>d. internal_id d \<notin> internal_id ` set ws) (works st)"
proof (induction ws arbitrary: st)
  case Nil
  show ?case by simp
next
  case (Cons w ws)
  show ?case
    by (simp add: Cons.IH deleteWorkRaw_works conj_commute)
qed

lemma foldl_deleteWorkRaw_counters:
  "counters (foldl (\<lambda>s w. fst (deleteWorkRaw s (Some w))) st ws) k =
     (if k \<in> internal_id ` set ws then None else counters st k)"
proof (induction ws arbitrary: st)
  case Nil
  show ?case by simp
next
  case (Cons w ws)
  show ?case
    by (simp add: Cons.IH deleteWorkRaw_counters)
qed

lemma deleteWorkForFile_works:
  "works (fst (deleteWorkForFile st fileId)) =
     filter (\<lambda>d. internal_id d \<notin> internal_id ` set (worksForSource st fileId noArgs)) (works st)"
  by (simp add: deleteWorkForFile_def Let_def foldl_deleteWorkRaw_works)

lemma deleteWorkForFile_counters:
  "counters (fst (deleteWorkForFile st fileId)) k =
     (if k \<in> internal_id ` set (worksForSource st fileId noArgs) then None else counters st k)"
  by (simp add: deleteWorkForFile_def Let_def foldl_deleteWorkRaw_counters)

lemma sort_key_sorted: "sorted (map f xs) \<Longrightarrow> sort_key f xs = xs"
  by (induction xs) (auto simp: insort_is_Cons)

lemma elevenJobs_listing:
  "worksForSource elevenJobs ''src1'' noArgs = map sourceJob (rev [1..<11])"
proof -
  have flt: "filter (\<lambda>w. entity_type w = ENTITY_TYPE_WORK \<and>
        matchFilter w \<lparr>f_key = ''event_source_id'', f_values = [''src1'']\<rparr>)
      (map sourceJob xs) = map sourceJob xs" for xs
    by (induction xs) (simp_all add: sourceJob_def ENTITY_TYPE_WORK_def matchFilter_def fieldValue_def)
  have srt: "sort_key timestamp (map sourceJob [0..<11]) = map sourceJob [0..<11]"
    by (rule sort_key_sorted) (simp add: comp_def sourceJob_def)
  have "take 10 (rev (map sourceJob [0..<11])) = map sourceJob (rev [1..<11])"
    by (simp add: take_rev rev_map take_map del: upt_Suc)
  then show ?thesis
    unfolding worksForSource_def noArgs_def elPaginate_def Let_def elevenJobs_def
    by (simp add: flt srt del: upt_Suc)
qed

lemma find_filter_ids:
  "find (\<lambda>d. internal_id d = k) (filter (\<lambda>d. internal_id d \<notin> D) xs) =
     (if k \<in> D then None else find (\<lambda>d. internal_id d = k) xs)"
  by (induction xs) auto

subsection \<open>The retention scan only deletes\<close>

lemma el_search_match:
  "fst ` set (el_search dm st q sz sa) \<subseteq> {d \<in> set (works st). matchQuery dm q d}"
  by (auto simp: el_search_def Let_def split: option.splits dest!: in_set_takeD)

lemma deletePage_works:
  "works (deletePage st hits) =
     filter (\<lambda>d. internal_id d \<notin> internal_id ` fst ` set hits) (works st)"
proof -
  have "Some k \<in> (\<lambda>x. Some (internal_id (fst x))) ` set hits \<longleftrightarrow>
      k \<in> (\<lambda>x. internal_id (fst x)) ` set hits" for k
    by auto
  then show ?thesis
    by (simp add: deletePage_def Let_def elDeleteInstanceIds_def redisDeleteWork_def image_image)
qed

lemma deletePage_counters:
  "counters (deletePage st hits) =
     (\<lambda>k. if k \<in> internal_id ` fst ` set hits then None else counters st k)"
  by (rule ext)
    (auto simp: deletePage_def Let_def elDeleteInstanceIds_def redisDeleteWork_def image_iff)

lemma scanLoop_deletes:
  "\<exists>D. D \<subseteq> internal_id ` {d \<in> set (works st). matchQuery dm q d} \<and>
       works (scanLoop dm q sz st sa) = filter (\<lambda>d. internal_id d \<notin> D) (works st) \<and>
       counters (scanLoop dm q sz st sa) = (\<lambda>k. if k \<in> D then None else counters st k)"
proof (induction dm q sz st sa rule: scanLoop.induct)
  case (1 dm q sz st sa)
  let ?hits = "el_search dm st q sz (cursorOf sa)"
  show ?case
  proof (cases "length ?hits = 0")
    case True
    then have "scanLoop dm q sz st sa = st"
      by (subst scanLoop.simps) (simp add: Let_def)
    then show ?thesis
      by (intro exI [of _ "{}"]) simp
  next
    case False
    let ?st1 = "deletePage st ?hits"
    let ?D1 = "internal_id ` fst ` set ?hits"
    have loop: "scanLoop dm q sz st sa = scanLoop dm q sz ?st1 (Some (snd (last ?hits)))"
      using False by (subst scanLoop.simps) (simp add: Let_def)
    from "1.IH" [OF refl False] obtain D2 where
      D2: "D2 \<subseteq> internal_id ` {d \<in> set (works ?st1). matchQuery dm q d}"
      and w2: "works (scanLoop dm q sz ?st1 (Some (snd (last ?hits)))) =
          filter (\<lambda>d. internal_id d \<notin> D2) (works ?st1)"
      and c2: "counters (scanLoop dm q sz ?st1 (Some (snd (last ?hits)))) =
          (\<lambda>k. if k \<in> D2 then None else counters ?st1 k)"
      by blast
    have D1: "?D1 \<subseteq> internal_id ` {d \<in> set (works st). matchQuery dm q d}"
      using el_search_match [of dm st q sz "cursorOf sa"] by blast
    have D2': "D2 \<subseteq> internal_id ` {d \<in> set (works st). matchQuery dm q d}"
      using D2 by (auto simp: deletePage_works)
    have "works (scanLoop dm q sz st sa) = filter (\<lambda>d. internal_id d \<notin> ?D1 \<union> D2) (works st)"
      unfolding loop w2 deletePage_works by (auto intro: filter_cong)
    moreover have "counters (scanLoop dm q sz st sa) =
        (\<lambda>k. if k \<in> ?D1 \<union> D2 then None else counters st k)"
      unfolding loop c2 deletePage_counters by auto
    ultimately show ?thesis
      using D1 D2' by (intro exI [of _ "?D1 \<union> D2"]) simp
  qed
qed

lemma deleteOldCompletedWorks_jobRecord:
  "jobRecord (deleteOldCompletedWorks dm st connector) k = None \<or>
   jobRecord (deleteOldCompletedWorks dm st connector) k = jobRecord st k"
proof -
  obtain D where "works (deleteOldCompletedWorks dm st connector) =
      filter (\<lambda>d. internal_id d \<notin> D) (works st)"
    unfolding deleteOldCompletedWorks_def using scanLoop_deletes by blast
  then show ?thesis
    by (simp add: jobRecord_def find_filter_ids)
qed

subsection \<open>Each operation but \<open>updateReceivedTime\<close> moves a status forward\<close>

lemma forwardAt_refl: "forwardAt st st k"
  by (simp add: forwardAt_def split: option.splits)

lemma forwardAt_trans: "forwardAt st st1 k \<Longrightarrow> forwardAt st1 st2 k \<Longrightarrow> forwardAt st st2 k"
  by (auto simp: forwardAt_def split: option.splits)

lemma forwardAt_same: "jobRecord st' k = jobRecord st k \<Longrightarrow> forwardAt st st' k"
  by (simp add: forwardAt_def split: option.splits)

lemma statusRank_le_Complete: "statusRank s \<le> 2"
  by (cases s) simp_all

lemma elUpdate_jobRecord_any:
  assumes "elUpdate st wid f = Inr st'" and "\<And>d. internal_id (f d) = internal_id d"
  shows "jobRecord st' k = (if k = wid then map_option f (jobRecord st wid) else jobRecord st k)"
  using assms by (auto simp: elUpdate_def jobRecord_def find_map_script split: if_splits)

lemma elUpdate_forward:
  assumes "elUpdate st wid f = Inr st'" and "\<And>d. internal_id (f d) = internal_id d"
    and "\<And>d. statusRank (status d) \<le> statusRank (status (f d))"
  shows "forwardAt st st' k"
  using elUpdate_jobRecord_any [OF assms(1,2), of k] assms(3)
  by (auto simp: forwardAt_def split: option.splits)

lemma updateProcessedTime_forward:
  "forwardAt st (fst (updateProcessedTime st nw usr workId message inError)) k"
proof (cases "isWorkCompleted st workId")
  case (Inl e)
  then show ?thesis by (simp add: updateProcessedTime_def forwardAt_refl)
next
  case (Inr r)
  obtain c t where r: "r = (c, t)" by (cases r)
  show ?thesis
  proof (cases "elUpdate st workId (updateProcessedScript nw c t message inError)")
    case (Inl e)
    then show ?thesis using Inr r by (simp add: updateProcessedTime_def forwardAt_refl)
  next
    case upd: (Inr st1)
    have "forwardAt st st1 k"
      by (rule elUpdate_forward [OF upd])
        (simp_all add: updateProcessedScript_fields statusRank_le_Complete)
    then show ?thesis using Inr r upd by (simp add: updateProcessedTime_def)
  qed
qed

lemma redisUpdateWorkFigures_works:
  "redisUpdateWorkFigures st wid = Inr (st1, c, t) \<Longrightarrow> works st1 = works st"
  by (auto simp: redisUpdateWorkFigures_def Let_def split: option.splits)

lemma reportActionImport_forward:
  "forwardAt st (fst (reportActionImport st nw usr workId errorData)) k"
proof (cases "redisUpdateWorkFigures st workId")
  case (Inl e)
  then show ?thesis by (simp add: reportActionImport_def forwardAt_refl)
next
  case (Inr r)
  obtain st1 c t where r: "r = (st1, c, t)" by (cases r)
  have same: "jobRecord st1 k = jobRecord st k"
    using redisUpdateWorkFigures_works [of st workId st1 c t] Inr r by (simp add: jobRecord_def)
  show ?thesis
  proof (cases "reportActionWrite st1 workId errorData nw c t")
    case (Inl e)
    then show ?thesis using Inr r same by (simp add: reportActionImport_def forwardAt_same)
  next
    case wr: (Inr st2)
    have "forwardAt st1 st2 k"
    proof (cases "c \<or> errorData \<noteq> None")
      case True
      then have "elUpdate st1 workId (reportActionScript c t errorData nw) = Inr st2"
        using wr by (simp add: reportActionWrite_def)
      then show ?thesis
        by (rule elUpdate_forward)
          (simp_all add: reportActionScript_fields statusRank_le_Complete)
    next
      case False
      then have "st2 = st1" using wr by (simp add: reportActionWrite_def)
      then show ?thesis by (simp add: forwardAt_refl)
    qed
    then have "forwardAt st st2 k"
      using forwardAt_trans [OF forwardAt_same [OF same]] by blast
    then show ?thesis using Inr r wr by (simp add: reportActionImport_def)
  qed
qed

lemma elIndex_jobRecord_other:
  "k \<noteq> internal_id w \<Longrightarrow> jobRecord (elIndex st w) k = jobRecord st k"
proof -
  assume k: "k \<noteq> internal_id w"
  have "find (\<lambda>d. internal_id d = k) (filter (\<lambda>d. internal_id d \<noteq> internal_id w) xs @ [w]) =
      find (\<lambda>d. internal_id d = k) xs" for xs
    using k by (induction xs) auto
  then show ?thesis
    by (simp add: jobRecord_def elIndex_def)
qed

lemma createWork_forward:
  assumes "k \<noteq> workId"
  shows "forwardAt st
           (fst (createWork dm st nw workId usr connector friendlyName sourceId receivedTime)) k"
proof -
  let ?st0 = "deleteOldCompletedWorks dm st connector"
  have "jobRecord (fst (createWork dm st nw workId usr connector friendlyName sourceId receivedTime)) k
      = jobRecord ?st0 k"
  proof -
    have "jobRecord (redisCreateWork s i c) k = jobRecord s k" for s i c
      by (simp add: jobRecord_def redisCreateWork_def)
    then show ?thesis
      using assms elIndex_jobRecord_other [of k "newWork nw workId usr connector friendlyName sourceId receivedTime"]
      by (simp add: createWork_eq newWork_id)
  qed
  then show ?thesis
    using deleteOldCompletedWorks_jobRecord [of dm st connector k]
    by (auto simp: forwardAt_def split: option.splits)
qed

lemma updateReceivedTime_forward:
  assumes "workId \<noteq> k \<or> map_option status (jobRecord st k) \<noteq> Some Complete"
  shows "forwardAt st (fst (updateReceivedTime st nw usr workId message)) k"
proof (cases "elUpdate st workId (updateReceivedScript nw message)")
  case (Inl e)
  then show ?thesis by (simp add: updateReceivedTime_def forwardAt_refl)
next
  case upd: (Inr st1)
  have rec: "jobRecord st1 k =
      (if k = workId then map_option (updateReceivedScript nw message) (jobRecord st workId)
       else jobRecord st k)"
    by (rule elUpdate_jobRecord_any [OF upd updateReceivedScript_id])
  have "forwardAt st st1 k"
  proof (cases "k = workId")
    case False
    then show ?thesis using rec by (simp add: forwardAt_same)
  next
    case True
    show ?thesis
    proof (cases "jobRecord st k")
      case None
      then show ?thesis using rec True by (simp add: forwardAt_def)
    next
      case (Some w)
      then have "status w \<noteq> Complete" using assms True by auto
      then have "statusRank (status w) \<le> statusRank Progress"
        by (cases "status w") simp_all
      then show ?thesis
        using rec True Some by (simp add: forwardAt_def updateReceivedScript_fields)
    qed
  qed
  then show ?thesis using upd by (simp add: updateReceivedTime_def)
qed

lemma applyOp_forward:
  assumes "\<not> regresses st x k" and "k \<notin> set (createdIds [x])"
  shows "forwardAt st (applyOp dm st x) k"
proof (cases x)
  case (CreateWork nw workId usr connector friendlyName sourceId receivedTime)
  then show ?thesis using assms(2) by (simp add: createWork_forward)
next
  case (ReportReceived nw usr workId message)
  then have "workId \<noteq> k \<or> map_option status (jobRecord st k) \<noteq> Some Complete"
    using assms(1) by auto
  then show ?thesis
    using ReportReceived by (simp add: updateReceivedTime_forward)
next
  case (ReportProcessed nw usr workId message inError)
  then show ?thesis by (simp add: updateProcessedTime_forward)
next
  case (ReportAction nw usr workId errorData)
  then show ?thesis by (simp add: reportActionImport_forward)
qed

lemma createdIds_Cons: "set (createdIds (x # ops)) = set (createdIds [x]) \<union> set (createdIds ops)"
  by (cases x) simp_all

lemma runOps_forward:
  assumes "noRegress dm st ops k" and "k \<notin> set (createdIds ops)"
  shows "forwardAt st (runOps dm st ops) k"
  using assms
proof (induction ops arbitrary: st)
  case Nil
  show ?case by (simp add: runOps_def forwardAt_refl)
next
  case (Cons x ops)
  have step: "forwardAt st (applyOp dm st x) k"
    using Cons.prems by (intro applyOp_forward) (simp_all add: createdIds_Cons [of x ops])
  have rest: "forwardAt (applyOp dm st x) (runOps dm (applyOp dm st x) ops) k"
    using Cons.prems by (intro Cons.IH) (simp_all add: createdIds_Cons [of x ops])
  show ?case
    using forwardAt_trans [OF step rest] by (simp add: runOps_def)
qed

lemma scanLoop_nothing:
  assumes "filter (matchQuery dm q) (works st) = []"
  shows "scanLoop dm q sz st sa = st"
proof -
  have "el_search dm st q sz (cursorOf sa) = []"
    using assms by (simp add: el_search_def Let_def split: option.splits)
  then show ?thesis
    by (subst scanLoop.simps) (simp add: Let_def)
qed

subsection \<open>The retention scan without ties\<close>

text \<open>
  When no two documents share an id and no two matching jobs share a \<open>completed_time\<close>,
  the scan deletes exactly the matching jobs.
\<close>

lemma distinct_ids_filter:
  assumes "distinct (map internal_id xs)" and "set hs \<subseteq> set xs"
  shows "filter (\<lambda>d. internal_id d \<notin> internal_id ` set hs) xs = filter (\<lambda>d. d \<notin> set hs) xs"
proof (rule filter_cong [OF refl])
  fix d assume d: "d \<in> set xs"
  have "inj_on internal_id (set xs)"
    using assms(1) by (simp add: distinct_map)
  then have "internal_id d \<in> internal_id ` set hs \<longleftrightarrow> d \<in> set hs"
    using d assms(2) by (auto dest: inj_onD)
  then show "(internal_id d \<notin> internal_id ` set hs) = (d \<notin> set hs)" by simp
qed

lemma sorted_desc_untied:
  assumes "distinct (map sortValue xs)"
  shows "sorted_wrt (\<lambda>a b. sortValue b < sortValue a) (rev (sort_key sortValue xs))"
proof -
  let ?ys = "sort_key sortValue xs"
  have "distinct (map sortValue ?ys)"
    using assms by (simp add: distinct_map)
  moreover have "sorted (map sortValue ?ys)"
    by (rule sorted_sort_key)
  ultimately have "sorted_wrt (<) (map sortValue ?ys)"
    by (simp add: strict_sorted_iff)
  then have "sorted_wrt (\<lambda>a b. sortValue a < sortValue b) ?ys"
    by (simp add: sorted_wrt_map)
  then show ?thesis
    by (simp add: sorted_wrt_rev)
qed

lemma scanLoop_exact_untied:
  assumes "distinct (map internal_id (works st))"
    and "distinct (map sortValue (filter (matchQuery dm q) (works st)))"
    and "0 < sz"
    and "\<forall>c. cursorOf sa = Some c \<longrightarrow>
           (\<forall>d \<in> set (filter (matchQuery dm q) (works st)). sortValue d < c)"
    and "sa = Some 0 \<longrightarrow> filter (matchQuery dm q) (works st) = []"
  shows "works (scanLoop dm q sz st sa) = filter (\<lambda>d. \<not> matchQuery dm q d) (works st)"
  using assms
proof (induction dm q sz st sa rule: scanLoop.induct)
  case (1 dm q sz st sa)
  let ?M = "filter (matchQuery dm q) (works st)"
  let ?S = "rev (sort_key sortValue ?M)"
  let ?hits = "el_search dm st q sz (cursorOf sa)"
  have setS: "set ?S = set ?M" by simp
  have page: "(case cursorOf sa of None \<Rightarrow> ?S | Some c \<Rightarrow> filter (\<lambda>w. sortValue w < c) ?S) = ?S"
  proof (cases "cursorOf sa")
    case None
    then show ?thesis by simp
  next
    case (Some c)
    then have "\<forall>d \<in> set ?S. sortValue d < c"
      using "1.prems"(4) setS by blast
    then show ?thesis using Some by simp
  qed
  have hits: "?hits = map (\<lambda>w. (w, sortValue w)) (take sz ?S)"
    unfolding el_search_def Let_def page ..
  show ?case
  proof (cases "length ?hits = 0")
    case True
    then have "min (length ?M) sz = 0" unfolding hits by simp
    then have "length ?M = 0" using "1.prems"(3) by (simp add: min_def split: if_splits)
    then have "?M = []" by (simp only: length_0_conv)
    then have "filter (\<lambda>d. \<not> matchQuery dm q d) (works st) = works st"
      by (simp add: filter_empty_conv)
    moreover have "scanLoop dm q sz st sa = st"
      using True by (subst scanLoop.simps) (simp add: Let_def)
    ultimately show ?thesis by simp
  next
    case False
    let ?H = "take sz ?S"
    let ?st1 = "deletePage st ?hits"
    let ?c' = "snd (last ?hits)"
    have Hne: "?H \<noteq> []"
    proof
      assume empty: "?H = []"
      have "?hits = []" by (simp only: hits empty list.map)
      then show False using False by simp
    qed
    have loop: "scanLoop dm q sz st sa = scanLoop dm q sz ?st1 (Some ?c')"
      using False by (subst scanLoop.simps) (simp add: Let_def)
    have fstH: "fst ` set ?hits = set ?H"
      unfolding hits by (simp add: image_image)
    have HsubM: "set ?H \<subseteq> set ?M"
      using set_take_subset [of sz ?S] setS by blast
    have Hsub: "set ?H \<subseteq> set (works st)"
      using HsubM by auto
    have w1: "works ?st1 = filter (\<lambda>d. d \<notin> set ?H) (works st)"
      unfolding deletePage_works fstH
      by (rule distinct_ids_filter [OF "1.prems"(1) Hsub])
    have c': "?c' = sortValue (last ?H)"
      unfolding hits using Hne by (simp add: last_map)
    have M1: "filter (matchQuery dm q) (works ?st1) = filter (\<lambda>d. d \<notin> set ?H) ?M"
      unfolding w1 by (simp add: conj_commute)
    have strict: "sorted_wrt (\<lambda>a b. sortValue b < sortValue a) (?H @ drop sz ?S)"
      using sorted_desc_untied [OF "1.prems"(2)] by simp
    have below: "\<forall>d \<in> set (filter (matchQuery dm q) (works ?st1)). sortValue d < ?c'"
    proof
      fix d assume "d \<in> set (filter (matchQuery dm q) (works ?st1))"
      then have "d \<in> set ?M" "d \<notin> set ?H" unfolding M1 by auto
      then have "d \<in> set ?S" by simp
      moreover have "set ?S = set ?H \<union> set (drop sz ?S)"
        using set_append [of ?H "drop sz ?S"] by simp
      ultimately have "d \<in> set (drop sz ?S)" using \<open>d \<notin> set ?H\<close> by blast
      moreover have "last ?H \<in> set ?H" using Hne by simp
      ultimately show "sortValue d < ?c'"
        using strict unfolding sorted_wrt_append c' by blast
    qed
    have d1: "distinct (map internal_id (works ?st1))"
      unfolding w1 using "1.prems"(1) by (rule distinct_map_filter)
    have d2: "distinct (map sortValue (filter (matchQuery dm q) (works ?st1)))"
      unfolding M1 using "1.prems"(2) by (rule distinct_map_filter)
    have cur: "\<forall>c. cursorOf (Some ?c') = Some c \<longrightarrow>
        (\<forall>d \<in> set (filter (matchQuery dm q) (works ?st1)). sortValue d < c)"
      using below by (auto simp: cursorOf_def truthy_def split: if_splits)
    have zero: "Some ?c' = Some 0 \<longrightarrow> filter (matchQuery dm q) (works ?st1) = []"
      using below by (auto simp: filter_empty_conv)
    have "works (scanLoop dm q sz ?st1 (Some ?c')) =
        filter (\<lambda>d. \<not> matchQuery dm q d) (works ?st1)"
      by (rule "1.IH" [OF refl False d1 d2 "1.prems"(3) cur zero])
    also have "\<dots> = filter (\<lambda>d. \<not> matchQuery dm q d) (works st)"
      unfolding w1 using HsubM by (auto intro: filter_cong)
    finally show ?thesis unfolding loop .
  qed
qed

lemma deleteOldCompletedWorks_exact_untied:
  assumes "distinct (map internal_id (works st))"
    and "distinct (map sortValue (filter (matchQuery dm (retentionQuery connector)) (works st)))"
  shows "works (deleteOldCompletedWorks dm st connector) =
           filter (\<lambda>d. \<not> (connector_id d = c_id connector \<and> status d = Complete \<and>
              (\<exists>t. completed_time d = Some t \<and>
                 t \<le> dm (if c_connector_type connector = CONNECTOR_INTERNAL_ENRICHMENT
                         then ''now-2d/d'' else ''now-30d/d'')))) (works st)"
proof -
  have "works (deleteOldCompletedWorks dm st connector) =
      filter (\<lambda>d. \<not> matchQuery dm (retentionQuery connector) d) (works st)"
    unfolding deleteOldCompletedWorks_def
    by (rule scanLoop_exact_untied [OF assms]) (simp_all add: paginationCount_def cursorOf_def truthy_def)
  also have "\<dots> = filter (\<lambda>d. \<not> (connector_id d = c_id connector \<and> status d = Complete \<and>
              (\<exists>t. completed_time d = Some t \<and>
                 t \<le> dm (if c_connector_type connector = CONNECTOR_INTERNAL_ENRICHMENT
                         then ''now-2d/d'' else ''now-30d/d'')))) (works st)"
    by (rule filter_cong [OF refl])
      (auto simp: matchQuery_def retentionQuery_def rangeToKeep_def split: option.splits)
  finally show ?thesis .
qed

subsection \<open>The retention scan on tied completion times\<close>

lemma doneJob_match: "matchQuery exampleDateMath (retentionQuery exampleConnector) (doneJob i)"
  by (simp add: matchQuery_def retentionQuery_def rangeToKeep_def exampleConnector_def
      exampleDateMath_def doneJob_def CONNECTOR_INTERNAL_ENRICHMENT_def)

lemma doneJob_sortValue: "sortValue (doneJob i) = 50"
  by (simp add: sortValue_def doneJob_def)

lemma doneJob_id: "internal_id (doneJob i) = internal_id (doneJob j) \<longleftrightarrow> i = j"
  by (simp add: doneJob_def)

lemma doneJobs_sorted: "sort_key sortValue (map doneJob xs) = map doneJob xs"
proof (rule sort_key_sorted)
  show "sorted (map sortValue (map doneJob xs))"
    by (induction xs) (simp_all add: doneJob_sortValue)
qed

lemma doneJobs_filter:
  "filter (matchQuery exampleDateMath (retentionQuery exampleConnector)) (map doneJob xs) =
     map doneJob xs"
  by (induction xs) (simp_all add: doneJob_match)

lemma manyDone_first_page:
  "el_search exampleDateMath manyDoneJobs (retentionQuery exampleConnector) paginationCount None =
     map (\<lambda>w. (w, sortValue w)) (map doneJob (rev [1..<Suc paginationCount]))"
proof -
  have "take paginationCount (rev (map doneJob [0..<Suc paginationCount])) =
      map doneJob (rev [1..<Suc paginationCount])"
    by (simp add: take_rev rev_map take_map del: upt_Suc)
  then show ?thesis
    by (simp add: el_search_def Let_def manyDoneJobs_def doneJobs_filter doneJobs_sorted
        del: upt_Suc)
qed

lemma manyDone_after_first_page:
  "works (deletePage manyDoneJobs
       (map (\<lambda>w. (w, sortValue w)) (map doneJob (rev [1..<Suc paginationCount])))) =
     [doneJob 0]"
proof -
  let ?n = "Suc paginationCount"
  have ids: "internal_id ` fst ` set (map (\<lambda>w. (w, sortValue w)) (map doneJob (rev [1..<?n]))) =
      (internal_id \<circ> doneJob) ` {1..<?n}"
    by (simp add: image_image comp_def del: upt_Suc)
  have inj: "internal_id (doneJob i) \<in> (internal_id \<circ> doneJob) ` {1..<?n} \<longleftrightarrow> 1 \<le> i \<and> i < ?n"
    for i
    by (auto simp: image_iff doneJob_id)
  have hd_n: "[0..<?n] = 0 # [1..<?n]"
    by (simp add: upt_conv_Cons del: upt_Suc)
  have rest: "filter (\<lambda>d. internal_id d \<notin> (internal_id \<circ> doneJob) ` {1..<?n})
      (map doneJob [1..<?n]) = []"
    by (auto simp: filter_empty_conv inj simp del: upt_Suc)
  show ?thesis
    unfolding deletePage_works ids
    using inj [of 0] rest
    by (simp add: manyDoneJobs_def hd_n del: upt_Suc)
qed

lemma manyDone_second_page:
  assumes "works st = [doneJob 0]"
  shows "el_search exampleDateMath st (retentionQuery exampleConnector) paginationCount
           (cursorOf (Some 50)) = []"
  using assms
  by (simp add: el_search_def Let_def cursorOf_def truthy_def doneJob_match doneJob_sortValue)

subsection \<open>Interleaved calls of \<open>reportActionImport\<close>\<close>

lemma stepCall_twice:
  "(case stepCall st c Pending of (st1, ph1) \<Rightarrow>
      case stepCall st1 c ph1 of (st2, ph2) \<Rightarrow> (st2, outcome (cl_workId c) ph2)) =
   (case reportActionImport st (cl_now c) (cl_user c) (cl_workId c) (cl_errorData c) of
      (st2, r) \<Rightarrow> (st2, Some r))"
  by (auto simp: reportActionImport_def split: sum.splits prod.splits)

lemma toldComplete_answer: "toldComplete ph \<longleftrightarrow> (\<exists>t. answer ph = Some (True, t))"
  by (cases ph) auto

lemma reportActionWrite_other:
  assumes "reportActionWrite st k ed nw b t = Inr st'" and "k \<noteq> wid"
  shows "counters st' = counters st" and "jobRecord st' wid = jobRecord st wid"
proof -
  show "counters st' = counters st"
    using assms(1) by (auto simp: reportActionWrite_def elUpdate_def split: if_splits)
  show "jobRecord st' wid = jobRecord st wid"
  proof (cases "b \<or> ed \<noteq> None")
    case True
    then have "elUpdate st k (reportActionScript b t ed nw) = Inr st'"
      using assms(1) by (simp add: reportActionWrite_def)
    from elUpdate_jobRecord_any [OF this reportActionScript_id, of wid] assms(2)
    show ?thesis by simp
  next
    case False
    then show ?thesis using assms(1) by (simp add: reportActionWrite_def)
  qed
qed

lemma stepCall_other:
  assumes "stepCall st cl ph = (st', ph')" and "cl_workId cl \<noteq> wid"
  shows "counters st' wid = counters st wid \<and> jobRecord st' wid = jobRecord st wid"
proof (cases ph)
  case Pending
  then show ?thesis
    using assms
    by (auto simp: redisUpdateWorkFigures_def Let_def jobRecord_def split: option.splits)
next
  case (Counted b t)
  show ?thesis
  proof (cases "reportActionWrite st (cl_workId cl) (cl_errorData cl) (cl_now cl) b t")
    case (Inl e)
    then show ?thesis using assms Counted by simp
  next
    case (Inr st2)
    then have "st' = st2" using assms Counted by simp
    then show ?thesis
      using reportActionWrite_other [OF Inr assms(2)] by simp
  qed
next
  case (Finished b t)
  then show ?thesis using assms by simp
next
  case (Failed e)
  then show ?thesis using assms by simp
qed

lemma stepCall_pending_target:
  assumes "counters st wid = Some c" and "cl_workId cl = wid"
  shows "\<exists>st'. stepCall st cl Pending =
            (st', Counted (import_processed_number c + 1 = import_expected_number c)
                    (import_processed_number c + 1)) \<and>
          works st' = works st \<and>
          counters st' wid = Some (c\<lparr>import_processed_number := import_processed_number c + 1\<rparr>)"
  using assms by (simp add: redisUpdateWorkFigures_def Let_def)

lemma stepCall_counted_target:
  assumes "jobRecord st wid = Some w" and "cl_workId cl = wid"
  shows "\<exists>st' w'. stepCall st cl (Counted b t) = (st', Finished b t) \<and>
          counters st' = counters st \<and> jobRecord st' wid = Some w' \<and>
          status w' = (if b then Complete else status w) \<and>
          completed_number w' = (if b then t else completed_number w)"
proof (cases "b \<or> cl_errorData cl \<noteq> None")
  case True
  let ?f = "reportActionScript b t (cl_errorData cl) (cl_now cl)"
  have "\<exists>st'. elUpdate st wid ?f = Inr st' \<and> counters st' = counters st \<and>
      jobRecord st' wid = Some (?f w) \<and> (\<forall>k. k \<noteq> wid \<longrightarrow> jobRecord st' k = jobRecord st k)"
    by (rule elUpdate_jobRecord [OF reportActionScript_id assms(1)])
  then obtain st' where "elUpdate st wid ?f = Inr st'" "counters st' = counters st"
    "jobRecord st' wid = Some (?f w)"
    by blast
  then show ?thesis
    using True assms(2) by (simp add: reportActionWrite_def reportActionScript_fields)
next
  case False
  then show ?thesis
    using assms by (simp add: reportActionWrite_def)
qed


subsection \<open>A step of a call on another job\<close>

lemma other_okEach:
  assumes "okEach wid e p0 calls phs pn w" and "cl_workId (calls ! i) \<noteq> wid"
  shows "okEach wid e p0 calls (phs[i := ph']) pn w"
  unfolding okEach_def
proof (intro allI impI)
  fix j assume j: "j < length calls" "cl_workId (calls ! j) = wid"
  then have "j \<noteq> i" using assms(2) by auto
  then have "phs[i := ph'] ! j = phs ! j" by simp
  then show "\<not> failed (phs[i := ph'] ! j) \<and>
        (\<forall>b t. answer (phs[i := ph'] ! j) = Some (b, t) \<longrightarrow>
           b = (t = e) \<and> p0 < t \<and> t \<le> pn \<and>
           (finished (phs[i := ph'] ! j) \<and> b \<longrightarrow> status w = Complete \<and> completed_number w = e))"
    using assms(1) j unfolding okEach_def by simp
qed

lemma other_distinctTotals:
  assumes "distinctTotals wid calls phs" and "cl_workId (calls ! i) \<noteq> wid"
  shows "distinctTotals wid calls (phs[i := ph'])"
  unfolding distinctTotals_def
proof (intro allI impI)
  fix j k b t b' t'
  assume j: "j < length calls" and k: "k < length calls"
    and jk: "j \<noteq> k \<and> cl_workId (calls ! j) = wid \<and> cl_workId (calls ! k) = wid"
    and a: "answer (phs[i := ph'] ! j) = Some (b, t) \<and> answer (phs[i := ph'] ! k) = Some (b', t')"
  have "j \<noteq> i" "k \<noteq> i" using assms(2) jk by auto
  then have "phs[i := ph'] ! j = phs ! j" "phs[i := ph'] ! k = phs ! k" by simp_all
  then have "answer (phs ! j) = Some (b, t) \<and> answer (phs ! k) = Some (b', t')"
    using a by simp
  then show "t \<noteq> t'"
    using assms(1) j k jk unfolding distinctTotals_def by blast
qed

lemma other_covered:
  assumes "covered wid p0 calls phs pn" and "cl_workId (calls ! i) \<noteq> wid"
  shows "covered wid p0 calls (phs[i := ph']) pn"
  unfolding covered_def
proof (intro allI impI)
  fix t assume "p0 < t \<and> t \<le> pn"
  then obtain j b where j: "j < length calls" "cl_workId (calls ! j) = wid"
    "answer (phs ! j) = Some (b, t)"
    using assms(1) unfolding covered_def by blast
  then have "j \<noteq> i" using assms(2) by auto
  then have "phs[i := ph'] ! j = phs ! j" by simp
  then show "\<exists>j < length calls. cl_workId (calls ! j) = wid \<and>
      (\<exists>b. answer (phs[i := ph'] ! j) = Some (b, t))"
    using j by auto
qed

subsection \<open>The counter step of a call on the job\<close>

lemma pending_okEach:
  assumes ok: "okEach wid e p0 calls phs pn w" and len: "length phs = length calls"
    and i: "i < length calls" and p0: "p0 \<le> pn"
  shows "okEach wid e p0 calls (phs[i := Counted (pn + 1 = e) (pn + 1)]) (pn + 1) w"
  unfolding okEach_def
proof (intro allI impI)
  fix j assume j: "j < length calls" "cl_workId (calls ! j) = wid"
  let ?phs = "phs[i := Counted (pn + 1 = e) (pn + 1)]"
  show "\<not> failed (?phs ! j) \<and>
        (\<forall>b t. answer (?phs ! j) = Some (b, t) \<longrightarrow>
           b = (t = e) \<and> p0 < t \<and> t \<le> pn + 1 \<and>
           (finished (?phs ! j) \<and> b \<longrightarrow> status w = Complete \<and> completed_number w = e))"
  proof (cases "j = i")
    case True
    then show ?thesis using i len p0 by auto
  next
    case False
    then have "?phs ! j = phs ! j" by simp
    then show ?thesis
      using ok j unfolding okEach_def by fastforce
  qed
qed

lemma pending_distinctTotals:
  assumes ok: "okEach wid e p0 calls phs pn w" and dt: "distinctTotals wid calls phs"
    and len: "length phs = length calls" and i: "i < length calls"
  shows "distinctTotals wid calls (phs[i := Counted (pn + 1 = e) (pn + 1)])"
  unfolding distinctTotals_def
proof (intro allI impI)
  let ?phs = "phs[i := Counted (pn + 1 = e) (pn + 1)]"
  fix j k b t b' t'
  assume j: "j < length calls" and k: "k < length calls"
    and jk: "j \<noteq> k \<and> cl_workId (calls ! j) = wid \<and> cl_workId (calls ! k) = wid"
    and a: "answer (?phs ! j) = Some (b, t) \<and> answer (?phs ! k) = Some (b', t')"
  have old: "t'' \<le> pn" if "m < length calls" "cl_workId (calls ! m) = wid"
    "answer (phs ! m) = Some (b'', t'')" for m b'' t''
    using ok that unfolding okEach_def by blast
  show "t \<noteq> t'"
  proof (cases "j = i")
    case True
    then have t: "t = pn + 1" using a i len by simp
    have "k \<noteq> i" using True jk by simp
    then have "answer (phs ! k) = Some (b', t')" using a by simp
    then have "t' \<le> pn" using old k jk by blast
    then show ?thesis using t by simp
  next
    case False
    then have aj: "answer (phs ! j) = Some (b, t)" using a by simp
    then have tj: "t \<le> pn" using old j jk by blast
    show ?thesis
    proof (cases "k = i")
      case True
      then have "t' = pn + 1" using a i len by simp
      then show ?thesis using tj by simp
    next
      case False
      then have "answer (phs ! k) = Some (b', t')" using a by simp
      then show ?thesis
        using dt j k jk aj unfolding distinctTotals_def by blast
    qed
  qed
qed

lemma pending_covered:
  assumes cov: "covered wid p0 calls phs pn" and len: "length phs = length calls"
    and i: "i < length calls" "cl_workId (calls ! i) = wid" and pend: "phs ! i = Pending"
  shows "covered wid p0 calls (phs[i := Counted (pn + 1 = e) (pn + 1)]) (pn + 1)"
  unfolding covered_def
proof (intro allI impI)
  let ?phs = "phs[i := Counted (pn + 1 = e) (pn + 1)]"
  fix t assume t: "p0 < t \<and> t \<le> pn + 1"
  show "\<exists>j < length calls. cl_workId (calls ! j) = wid \<and> (\<exists>b. answer (?phs ! j) = Some (b, t))"
  proof (cases "t = pn + 1")
    case True
    then have "answer (?phs ! i) = Some (pn + 1 = e, t)" using i len by simp
    then show ?thesis using i by blast
  next
    case False
    then have "p0 < t \<and> t \<le> pn" using t by simp
    then obtain j b where j: "j < length calls" "cl_workId (calls ! j) = wid"
      "answer (phs ! j) = Some (b, t)"
      using cov unfolding covered_def by blast
    then have "j \<noteq> i" using pend by auto
    then have "?phs ! j = phs ! j" by simp
    then show ?thesis using j by auto
  qed
qed

subsection \<open>The write step of a call on the job\<close>

lemma counted_okEach:
  assumes ok: "okEach wid e p0 calls phs pn w" and len: "length phs = length calls"
    and i: "i < length calls" "cl_workId (calls ! i) = wid" and cnt: "phs ! i = Counted b t"
    and st: "status w' = (if b then Complete else status w)"
    and cn: "completed_number w' = (if b then t else completed_number w)"
  shows "okEach wid e p0 calls (phs[i := Finished b t]) pn w'"
  unfolding okEach_def
proof (intro allI impI)
  let ?phs = "phs[i := Finished b t]"
  fix j assume j: "j < length calls" "cl_workId (calls ! j) = wid"
  have bi: "b = (t = e) \<and> p0 < t \<and> t \<le> pn"
    using ok i cnt unfolding okEach_def by simp
  show "\<not> failed (?phs ! j) \<and>
        (\<forall>b' t'. answer (?phs ! j) = Some (b', t') \<longrightarrow>
           b' = (t' = e) \<and> p0 < t' \<and> t' \<le> pn \<and>
           (finished (?phs ! j) \<and> b' \<longrightarrow> status w' = Complete \<and> completed_number w' = e))"
  proof (cases "j = i")
    case True
    then show ?thesis using i len bi st cn by auto
  next
    case False
    then have same: "?phs ! j = phs ! j" by simp
    have "\<not> failed (phs ! j) \<and>
        (\<forall>b' t'. answer (phs ! j) = Some (b', t') \<longrightarrow>
           b' = (t' = e) \<and> p0 < t' \<and> t' \<le> pn \<and>
           (finished (phs ! j) \<and> b' \<longrightarrow> status w = Complete \<and> completed_number w = e))"
      using ok j unfolding okEach_def by blast
    then show ?thesis
      unfolding same using bi st cn by auto
  qed
qed

lemma counted_answers:
  assumes "length phs = length calls" and "i < length calls" and "phs ! i = Counted b t"
  shows "answer (phs[i := Finished b t] ! j) = answer (phs ! j)"
  using assms by (cases "j = i") simp_all

lemma counted_distinctTotals:
  assumes "distinctTotals wid calls phs" and "length phs = length calls"
    and "i < length calls" and "phs ! i = Counted b t"
  shows "distinctTotals wid calls (phs[i := Finished b t])"
  using assms(1) unfolding distinctTotals_def counted_answers [OF assms(2-4)] .

lemma counted_covered:
  assumes "covered wid p0 calls phs pn" and "length phs = length calls"
    and "i < length calls" and "phs ! i = Counted b t"
  shows "covered wid p0 calls (phs[i := Finished b t]) pn"
  using assms(1) unfolding covered_def counted_answers [OF assms(2-4)] .


subsection \<open>Every step keeps the invariant\<close>

lemma stepAt_raceInv:
  assumes inv: "raceInv wid e p0 calls cfg"
  shows "raceInv wid e p0 calls (stepAt calls cfg i)"
proof -
  obtain st phs where cfg: "cfg = (st, phs)" by (cases cfg)
  from inv cfg obtain c w where len: "length phs = length calls"
    and cnt: "counters st wid = Some c" and job: "jobRecord st wid = Some w"
    and ex: "import_expected_number c = e" and p0: "p0 \<le> import_processed_number c"
    and ok: "okEach wid e p0 calls phs (import_processed_number c) w"
    and dt: "distinctTotals wid calls phs"
    and cov: "covered wid p0 calls phs (import_processed_number c)"
    unfolding raceInv_def by auto
  let ?pn = "import_processed_number c"
  show ?thesis
  proof (cases "i < length calls")
    case False
    then show ?thesis using inv cfg by simp
  next
    case i: True
    obtain st' ph' where step: "stepCall st (calls ! i) (phs ! i) = (st', ph')"
      by (cases "stepCall st (calls ! i) (phs ! i)")
    have next_cfg: "stepAt calls cfg i = (st', phs[i := ph'])"
      using cfg i len step by simp
    show ?thesis
    proof (cases "cl_workId (calls ! i) = wid")
      case False
      from stepCall_other [OF step False]
      have "counters st' wid = Some c" "jobRecord st' wid = Some w"
        using cnt job by simp_all
      then show ?thesis
        unfolding next_cfg raceInv_def
        using len ex p0 other_okEach [OF ok False] other_distinctTotals [OF dt False]
          other_covered [OF cov False]
        by auto
    next
      case target: True
      show ?thesis
      proof (cases "phs ! i")
        case Pending
        from stepCall_pending_target [OF cnt target] obtain st1 where
          s1: "stepCall st (calls ! i) Pending = (st1, Counted (?pn + 1 = e) (?pn + 1))"
          and w1: "works st1 = works st"
          and c1: "counters st1 wid = Some (c\<lparr>import_processed_number := ?pn + 1\<rparr>)"
          using ex by auto
        have eq: "st' = st1" "ph' = Counted (?pn + 1 = e) (?pn + 1)"
          using step s1 Pending by simp_all
        have j1: "jobRecord st1 wid = Some w"
          using job w1 by (simp add: jobRecord_def)
        show ?thesis
          unfolding next_cfg raceInv_def eq
          using len c1 j1 ex p0
            pending_okEach [OF ok len i p0]
            pending_distinctTotals [OF ok dt len i]
            pending_covered [OF cov len i target Pending, where e = e]
          by auto
      next
        case (Counted b t)
        from stepCall_counted_target [OF job target, of b t] obtain st2 w' where
          s2: "stepCall st (calls ! i) (Counted b t) = (st2, Finished b t)"
          and c2: "counters st2 = counters st" and j2: "jobRecord st2 wid = Some w'"
          and st2: "status w' = (if b then Complete else status w)"
          and cn2: "completed_number w' = (if b then t else completed_number w)"
          by blast
        have eq: "st' = st2" "ph' = Finished b t"
          using step s2 Counted by simp_all
        show ?thesis
          unfolding next_cfg raceInv_def eq
          using len cnt c2 j2 ex p0
            counted_okEach [OF ok len i target Counted st2 cn2]
            counted_distinctTotals [OF dt len i Counted]
            counted_covered [OF cov len i Counted]
          by auto
      next
        case (Finished b t)
        then have "st' = st" "ph' = phs ! i" using step by simp_all
        then show ?thesis
          unfolding next_cfg using inv cfg by simp
      next
        case (Failed err)
        then have "st' = st" "ph' = phs ! i" using step by simp_all
        then show ?thesis
          unfolding next_cfg using inv cfg by simp
      qed
    qed
  qed
qed

lemma foldl_stepAt_raceInv:
  "raceInv wid e p0 calls cfg \<Longrightarrow> raceInv wid e p0 calls (foldl (stepAt calls) cfg sched)"
  by (induction sched arbitrary: cfg) (simp_all add: stepAt_raceInv)

lemma initial_raceInv:
  assumes "counters st wid = Some c0" and "jobRecord st wid = Some w0"
  shows "raceInv wid (import_expected_number c0) (import_processed_number c0) calls
           (st, replicate (length calls) Pending)"
  using assms
  by (simp add: raceInv_def okEach_def distinctTotals_def covered_def)

lemma runSchedule_raceInv:
  assumes "counters st wid = Some c0" and "jobRecord st wid = Some w0"
  shows "raceInv wid (import_expected_number c0) (import_processed_number c0) calls
           (runSchedule calls st sched)"
  unfolding runSchedule_def
  by (rule foldl_stepAt_raceInv [OF initial_raceInv [OF assms]])

lemma race_example_phases:
  "snd (runSchedule [callA, callB] (exampleState 2 0) [0, 1, 1, 0]) =
     [Finished False 1, Finished True 2]"
  by (simp add: runSchedule_def callA_def callB_def exampleState_def exampleJob_def
      redisUpdateWorkFigures_def reportActionWrite_def elUpdate_def Let_def)

section \<open>Progress reporting: \<open>reportActionImport\<close> and \<open>updateProcessedTime\<close>\<close>

text \<open>
  C5. A call of \<open>reportActionImport\<close> on an existing job: when the counter operation reports
  completion, the one update of the job record sets \<open>status\<close> to \<open>complete\<close>,
  \<open>completed_number\<close> to the counter's total and \<open>completed_time\<close> to the call's time; when
  \<open>errorData = {error, source}\<close> is given, the same update appends
  \<open>{timestamp, message: error, source}\<close> to \<open>errors\<close>; without completion the status and
  the completion fields stay as they were; and when neither completion is reported nor
  \<open>errorData\<close> is given, the work store is not written at all.
\<close>

theorem reportActionImport_update:
  assumes counter: "redisUpdateWorkFigures st workId = Inr (st1, isComplete, tot)"
    and job: "jobRecord st workId = Some w"
  shows "(isComplete \<or> errorData \<noteq> None \<longrightarrow>
           (\<exists>st2 w'. reportActionImport st nw usr workId errorData = (st2, Inr workId) \<and>
              jobRecord st2 workId = Some w' \<and>
              (isComplete \<longrightarrow> status w' = Complete \<and> completed_number w' = tot \<and>
                 completed_time w' = Some nw) \<and>
              (\<not> isComplete \<longrightarrow> status w' = status w \<and> completed_number w' = completed_number w \<and>
                 completed_time w' = completed_time w) \<and>
              errors w' = errors w @
                (case errorData of None \<Rightarrow> []
                 | Some (err, source) \<Rightarrow>
                     [\<lparr>le_timestamp = nw, le_message = err, le_source = Some source\<rparr>]))) \<and>
         (\<not> isComplete \<and> errorData = None \<longrightarrow>
            reportActionImport st nw usr workId errorData = (st1, Inr workId) \<and>
            works st1 = works st)"
proof -
  let ?f = "reportActionScript isComplete tot errorData nw"
  have w1: "works st1 = works st"
    using counter by (auto simp: redisUpdateWorkFigures_def Let_def split: option.splits)
  then have job1: "jobRecord st1 workId = Some w"
    using job by (simp add: jobRecord_def)
  have "\<exists>st'. elUpdate st1 workId ?f = Inr st' \<and> counters st' = counters st1 \<and>
      jobRecord st' workId = Some (?f w) \<and> (\<forall>k. k \<noteq> workId \<longrightarrow> jobRecord st' k = jobRecord st1 k)"
    by (rule elUpdate_jobRecord [OF reportActionScript_id job1])
  then obtain st2 where st2: "elUpdate st1 workId ?f = Inr st2"
    and j2: "jobRecord st2 workId = Some (?f w)"
    by blast
  have a: "isComplete \<or> errorData \<noteq> None \<Longrightarrow>
      reportActionImport st nw usr workId errorData = (st2, Inr workId)"
    using counter st2 by (simp add: reportActionImport_def reportActionWrite_def)
  have b: "\<not> isComplete \<and> errorData = None \<Longrightarrow>
      reportActionImport st nw usr workId errorData = (st1, Inr workId)"
    using counter by (simp add: reportActionImport_def reportActionWrite_def)
  show ?thesis
    using a b j2 w1 by (simp add: reportActionScript_fields)
qed

theorem reportActionImport_update_witness:
  "redisUpdateWorkFigures (exampleState 1 0) ''w1'' = Inr (exampleState 1 1, True, 1) \<and>
   jobRecord (exampleState 1 0) ''w1'' = Some exampleJob \<and>
   (\<exists>st2 w'. reportActionImport (exampleState 1 0) 9 exampleUser ''w1''
                (Some (''boom'', ''worker-2'')) = (st2, Inr ''w1'') \<and>
      jobRecord st2 ''w1'' = Some w' \<and> status w' = Complete \<and> completed_number w' = 1 \<and>
      completed_time w' = Some 9 \<and>
      errors w' = [\<lparr>le_timestamp = 9, le_message = ''boom'', le_source = Some ''worker-2''\<rparr>])"
proof -
  have c: "redisUpdateWorkFigures (exampleState 1 0) ''w1'' = Inr (exampleState 1 1, True, 1)"
    by (simp add: redisUpdateWorkFigures_def exampleState_def Let_def)
  have e: "errors exampleJob = []"
    by (simp add: exampleJob_def)
  show ?thesis
    using reportActionImport_update [OF c exampleState_job,
        of "Some (''boom'', ''worker-2'')" 9 exampleUser]
      c exampleState_job e
    by simp
qed

text \<open>
  C6. A call of \<open>updateProcessedTime\<close> on an existing job sets \<open>processed_time\<close> to the
  call's time; if the counter read shows the processed number equal to the expected
  number, the same update also sets \<open>status\<close> to \<open>complete\<close>, \<open>completed_number\<close> to the
  processed number and \<open>completed_time\<close> to the call's time; and a non-empty message is
  appended to \<open>errors\<close> when \<open>inError\<close> is true and to \<open>messages\<close> otherwise, in the same
  update. The read compares the two numbers as \<open>parseInt\<close> gives them: the update
  finalizes exactly when these are equal, which for numbers of magnitude below
  \<open>2 ^ 53\<close> is exactly when the counters are equal.
\<close>

theorem updateProcessedTime_effect:
  assumes counter: "counters st workId = Some c"
    and job: "jobRecord st workId = Some w"
  shows "\<exists>st1 w'. updateProcessedTime st nw usr workId message inError = (st1, Inr workId) \<and>
           jobRecord st1 workId = Some w' \<and>
           processed_time w' = Some nw \<and>
           (import_processed_number c = import_expected_number c \<longrightarrow>
              status w' = Complete \<and> completed_number w' = import_processed_number c \<and>
              completed_time w' = Some nw) \<and>
           (if parseInt (import_processed_number c) = parseInt (import_expected_number c)
            then status w' = Complete \<and> completed_number w' = import_processed_number c \<and>
                 completed_time w' = Some nw
            else status w' = status w \<and> completed_number w' = completed_number w \<and>
                 completed_time w' = completed_time w) \<and>
           (\<bar>import_processed_number c\<bar> < 2 ^ 53 \<and> \<bar>import_expected_number c\<bar> < 2 ^ 53 \<and>
            import_processed_number c \<noteq> import_expected_number c \<longrightarrow>
              status w' = status w \<and> completed_number w' = completed_number w \<and>
              completed_time w' = completed_time w) \<and>
           errors w' = errors w @
             (if isNotEmptyField message \<and> inError
              then [\<lparr>le_timestamp = nw, le_message = the message, le_source = None\<rparr>] else []) \<and>
           messages w' = messages w @
             (if isNotEmptyField message \<and> \<not> inError
              then [\<lparr>le_timestamp = nw, le_message = the message, le_source = None\<rparr>] else [])"
proof -
  let ?pn = "import_processed_number c" and ?en = "import_expected_number c"
  obtain st1 where "updateProcessedTime st nw usr workId message inError = (st1, Inr workId)"
    and "jobRecord st1 workId =
             Some (updateProcessedScript nw (parseInt ?pn = parseInt ?en) ?pn message inError w)"
    using updateProcessedTime_result [OF counter job] by blast
  moreover have "parseInt ?pn \<noteq> parseInt ?en"
    if "\<bar>?pn\<bar> < 2 ^ 53 \<and> \<bar>?en\<bar> < 2 ^ 53 \<and> ?pn \<noteq> ?en"
    using that parseInt_eq_exact [of ?pn ?en] by blast
  ultimately show ?thesis
    by (auto simp: updateProcessedScript_fields)
qed

theorem updateProcessedTime_effect_witness:
  "counters (exampleState 3 3) ''w1'' =
     Some \<lparr>import_expected_number = 3, import_processed_number = 3\<rparr> \<and>
   jobRecord (exampleState 3 3) ''w1'' = Some exampleJob \<and>
   (\<exists>st1 w'. updateProcessedTime (exampleState 3 3) 9 exampleUser ''w1'' (Some ''bad'') True =
        (st1, Inr ''w1'') \<and>
      jobRecord st1 ''w1'' = Some w' \<and> processed_time w' = Some 9 \<and> status w' = Complete \<and>
      completed_number w' = 3 \<and> completed_time w' = Some 9 \<and>
      errors w' = [\<lparr>le_timestamp = 9, le_message = ''bad'', le_source = None\<rparr>] \<and>
      messages w' = []) \<and>
   (\<exists>st1 w'. updateProcessedTime (exampleState 9007199254740993 9007199254740992) 9 exampleUser
        ''w1'' None False = (st1, Inr ''w1'') \<and>
      jobRecord st1 ''w1'' = Some w' \<and> status w' = Complete \<and>
      completed_number w' = 9007199254740992) \<and>
   (\<exists>st1 w'. updateProcessedTime (exampleState 3 2) 9 exampleUser ''w1'' None False =
        (st1, Inr ''w1'') \<and>
      jobRecord st1 ''w1'' = Some w' \<and> status w' = Progress \<and> completed_time w' = None)"
proof -
  have c: "counters (exampleState en pn) ''w1'' =
      Some \<lparr>import_expected_number = en, import_processed_number = pn\<rparr>" for en pn
    by (simp add: exampleState_def)
  have e: "errors exampleJob = []" "messages exampleJob = []" "status exampleJob = Progress"
    "completed_time exampleJob = None"
    by (simp_all add: exampleJob_def)
  have equal: "\<exists>st1 w'. updateProcessedTime (exampleState 3 3) 9 exampleUser ''w1'' (Some ''bad'')
        True = (st1, Inr ''w1'') \<and>
      jobRecord st1 ''w1'' = Some w' \<and> processed_time w' = Some 9 \<and> status w' = Complete \<and>
      completed_number w' = 3 \<and> completed_time w' = Some 9 \<and>
      errors w' = [\<lparr>le_timestamp = 9, le_message = ''bad'', le_source = None\<rparr>] \<and>
      messages w' = []"
    using updateProcessedTime_effect [OF c exampleState_job, of 3 3 9 exampleUser "Some ''bad''" True]
      e
    by (auto simp: isNotEmptyField_def)
  have rounded: "\<exists>st1 w'. updateProcessedTime (exampleState 9007199254740993 9007199254740992) 9
        exampleUser ''w1'' None False = (st1, Inr ''w1'') \<and>
      jobRecord st1 ''w1'' = Some w' \<and> status w' = Complete \<and>
      completed_number w' = 9007199254740992"
    using updateProcessedTime_effect [OF c exampleState_job,
        of 9007199254740993 9007199254740992 9 exampleUser None False]
      parseInt_rounds
    by auto
  have unequal: "\<exists>st1 w'. updateProcessedTime (exampleState 3 2) 9 exampleUser ''w1'' None False =
        (st1, Inr ''w1'') \<and>
      jobRecord st1 ''w1'' = Some w' \<and> status w' = Progress \<and> completed_time w' = None"
    using updateProcessedTime_effect [OF c exampleState_job, of 3 2 9 exampleUser None False] e
    by auto
  show ?thesis
    using c [of 3 3] exampleState_job [of 3 3] equal rounded unequal
    by (intro conjI) assumption+
qed

text \<open>
  C10. A job freshly created by \<open>createWork\<close>, whose counter still holds expected number 0
  and processed number 0, is finalized by a single call of \<open>updateProcessedTime\<close>: the
  call succeeds and leaves the job with \<open>status\<close> \<open>complete\<close>, \<open>completed_number\<close> 0 and
  \<open>completed_time\<close> set to the call's time, although no sub-item was processed.
\<close>

theorem createWork_then_processed_completes:
  "\<exists>st2 w'. updateProcessedTime
       (fst (createWork dm st nw workId usr connector friendlyName sourceId receivedTime))
       nw' usr' workId message inError = (st2, Inr workId) \<and>
     jobRecord st2 workId = Some w' \<and> status w' = Complete \<and> completed_number w' = 0 \<and>
     completed_time w' = Some nw' \<and> processed_time w' = Some nw'"
proof -
  let ?st1 = "fst (createWork dm st nw workId usr connector friendlyName sourceId receivedTime)"
  let ?c = "\<lparr>import_expected_number = 0, import_processed_number = 0\<rparr>"
  obtain st2 where run: "updateProcessedTime ?st1 nw' usr' workId message inError = (st2, Inr workId)"
    and job: "jobRecord st2 workId =
       Some (updateProcessedScript nw'
               (parseInt (import_processed_number ?c) = parseInt (import_expected_number ?c))
               (import_processed_number ?c) message inError
               (newWork nw workId usr connector friendlyName sourceId receivedTime))"
    using updateProcessedTime_result [OF createWork_counter createWork_job] by blast
  show ?thesis
    using run job by (simp add: updateProcessedScript_fields)
qed

theorem createWork_then_processed_completes_witness:
  "\<exists>st2 w'. updateProcessedTime
       (fst (createWork exampleDateMath (exampleState 3 1) 5 ''w2'' exampleUser exampleConnector
               ''g.csv'' ''src1'' None))
       8 exampleUser ''w2'' None False = (st2, Inr ''w2'') \<and>
     jobRecord st2 ''w2'' = Some w' \<and> status w' = Complete \<and> completed_number w' = 0 \<and>
     completed_time w' = Some 8 \<and> processed_time w' = Some 8"
  by (rule createWork_then_processed_completes)

section \<open>Creation\<close>

text \<open>
  C4 (as amended). \<open>createWork\<close> returns the job record it has just indexed: its \<open>status\<close> is
  \<open>progress\<close> if a \<open>receivedTime\<close> was supplied that counts as true in
  \<open>receivedTime ? 'progress' : 'wait'\<close> (a timestamp other than \<open>0\<close>) and \<open>wait\<close> otherwise;
  \<open>received_time\<close> is the supplied \<open>receivedTime\<close> (null when none was supplied),
  \<open>processed_time\<close> and \<open>completed_time\<close> are null; \<open>messages\<close> and \<open>errors\<close> are empty; and
  the paired counter holds expected number 0 and processed number 0.
\<close>

theorem createWork_record:
  "\<exists>st' wk. createWork dm st nw workId usr connector friendlyName sourceId receivedTime =
       (st', workId, Some wk) \<and>
     jobRecord st' workId = Some wk \<and>
     status wk = (if truthy receivedTime then Progress else Wait) \<and>
     timestamp wk = nw \<and> received_time wk = receivedTime \<and>
     processed_time wk = None \<and> completed_time wk = None \<and>
     messages wk = [] \<and> errors wk = [] \<and>
     counters st' workId = Some \<lparr>import_expected_number = 0, import_processed_number = 0\<rparr>"
proof -
  let ?r = "createWork dm st nw workId usr connector friendlyName sourceId receivedTime"
  let ?w = "newWork nw workId usr connector friendlyName sourceId receivedTime"
  have "?r = (fst ?r, workId, Some ?w)"
    by (simp add: createWork_eq)
  moreover have "jobRecord (fst ?r) workId = Some ?w"
    by (rule createWork_job)
  moreover have "counters (fst ?r) workId =
      Some \<lparr>import_expected_number = 0, import_processed_number = 0\<rparr>"
    by (rule createWork_counter)
  moreover have "status ?w = (if truthy receivedTime then Progress else Wait)"
    "timestamp ?w = nw" "received_time ?w = receivedTime" "processed_time ?w = None"
    "completed_time ?w = None" "messages ?w = []" "errors ?w = []"
    by (simp_all add: newWork_def)
  ultimately show ?thesis by blast
qed

theorem createWork_record_witness:
  "(\<exists>st' wk. createWork exampleDateMath (exampleState 3 1) 5 ''w2'' exampleUser exampleConnector
       ''g.csv'' ''src1'' (Some 4) = (st', ''w2'', Some wk) \<and>
     jobRecord st' ''w2'' = Some wk \<and> status wk = Progress \<and>
     timestamp wk = 5 \<and> received_time wk = Some 4 \<and>
     processed_time wk = None \<and> completed_time wk = None \<and>
     messages wk = [] \<and> errors wk = [] \<and>
     counters st' ''w2'' = Some \<lparr>import_expected_number = 0, import_processed_number = 0\<rparr>) \<and>
   (\<exists>st' wk. createWork exampleDateMath (exampleState 3 1) 5 ''w2'' exampleUser exampleConnector
       ''g.csv'' ''src1'' None = (st', ''w2'', Some wk) \<and>
     status wk = Wait \<and> received_time wk = None) \<and>
   (\<exists>st' wk. createWork exampleDateMath (exampleState 3 1) 5 ''w2'' exampleUser exampleConnector
       ''g.csv'' ''src1'' (Some 0) = (st', ''w2'', Some wk) \<and>
     status wk = Wait \<and> received_time wk = Some 0)"
proof -
  have given: "\<exists>st' wk. createWork exampleDateMath (exampleState 3 1) 5 ''w2'' exampleUser
       exampleConnector ''g.csv'' ''src1'' (Some 4) = (st', ''w2'', Some wk) \<and>
     jobRecord st' ''w2'' = Some wk \<and> status wk = Progress \<and>
     timestamp wk = 5 \<and> received_time wk = Some 4 \<and>
     processed_time wk = None \<and> completed_time wk = None \<and>
     messages wk = [] \<and> errors wk = [] \<and>
     counters st' ''w2'' = Some \<lparr>import_expected_number = 0, import_processed_number = 0\<rparr>"
    using createWork_record [of exampleDateMath "exampleState 3 1" 5 "''w2''" exampleUser
        exampleConnector "''g.csv''" "''src1''" "Some 4"]
    by (simp add: truthy_def)
  have absent: "\<exists>st' wk. createWork exampleDateMath (exampleState 3 1) 5 ''w2'' exampleUser
       exampleConnector ''g.csv'' ''src1'' None = (st', ''w2'', Some wk) \<and>
     status wk = Wait \<and> received_time wk = None"
    using createWork_record [of exampleDateMath "exampleState 3 1" 5 "''w2''" exampleUser
        exampleConnector "''g.csv''" "''src1''" None]
    by (auto simp: truthy_def)
  have zero: "\<exists>st' wk. createWork exampleDateMath (exampleState 3 1) 5 ''w2'' exampleUser
       exampleConnector ''g.csv'' ''src1'' (Some 0) = (st', ''w2'', Some wk) \<and>
     status wk = Wait \<and> received_time wk = Some 0"
    using createWork_record [of exampleDateMath "exampleState 3 1" 5 "''w2''" exampleUser
        exampleConnector "''g.csv''" "''src1''" "Some 0"]
    by (auto simp: truthy_def)
  show ?thesis
    using given absent zero by (intro conjI) assumption+
qed

text \<open>
  The specification has every timestamp field but the creation timestamp null, and the
  status \<open>progress\<close> whenever a \<open>receivedTime\<close> was supplied: with a \<open>receivedTime\<close> supplied,
  \<open>received_time\<close> holds it, and a supplied \<open>receivedTime\<close> of \<open>0\<close> leaves the status \<open>wait\<close>.
\<close>

theorem createWork_received_time_counterexample:
  "received_time (the (snd (snd (createWork exampleDateMath (exampleState 3 1) 5 ''w2'' exampleUser
       exampleConnector ''g.csv'' ''src1'' (Some 4))))) = Some 4 \<and>
   status (the (snd (snd (createWork exampleDateMath (exampleState 3 1) 5 ''w2'' exampleUser
       exampleConnector ''g.csv'' ''src1'' (Some 0))))) = Wait \<and>
   received_time (the (snd (snd (createWork exampleDateMath (exampleState 3 1) 5 ''w2'' exampleUser
       exampleConnector ''g.csv'' ''src1'' (Some 0))))) = Some 0"
  by (simp add: createWork_eq newWork_def truthy_def)

section \<open>Deletion\<close>

text \<open>
  C9. For a job id whose lookup finds no job record, \<open>deleteWork\<close> returns normally and
  leaves the work store and the counter store as they were. (The object handed to
  \<open>deleteWorkRaw\<close> then has no \<open>internal_id\<close>, which is what \<open>deleteWork\<close> returns.)
\<close>

theorem deleteWork_missing_noop:
  assumes "elLoadByIds st workId ENTITY_TYPE_WORK = None"
  shows "deleteWork st workId = (st, None)"
  using assms
  by (simp add: deleteWork_def loadWorkById_def deleteWorkRaw_def Let_def
      elDeleteInstanceIds_def redisDeleteWork_def)

theorem deleteWork_missing_noop_witness:
  "elLoadByIds (exampleState 3 1) ''w7'' ENTITY_TYPE_WORK = None \<and>
   deleteWork (exampleState 3 1) ''w7'' = (exampleState 3 1, None)"
proof -
  have h: "elLoadByIds (exampleState 3 1) ''w7'' ENTITY_TYPE_WORK = None"
    by (simp add: elLoadByIds_def exampleState_def exampleJob_def)
  show ?thesis
    using deleteWork_missing_noop [OF h] h by simp
qed

text \<open>
  C3. \<open>deleteWorkForFile\<close> deletes the jobs that \<open>worksForSource\<close> lists for the source, with
  their counters. It calls \<open>worksForSource\<close> without \<open>first\<close>, so the listing holds at most
  the 10 most recent jobs: of eleven jobs on one source, the oldest and its counter are
  still stored after the call.
\<close>

theorem deleteWorkForFile_leaves_eleventh:
  "map internal_id (works (fst (deleteWorkForFile elevenJobs ''src1''))) = [''j''] \<and>
   map event_source_id (works (fst (deleteWorkForFile elevenJobs ''src1''))) = [''src1''] \<and>
   counters (fst (deleteWorkForFile elevenJobs ''src1'')) ''j'' =
     Some \<lparr>import_expected_number = 0, import_processed_number = 0\<rparr>"
proof -
  have ids: "internal_id ` set (map sourceJob (rev [1..<11])) =
      (\<lambda>i. replicate (Suc i) (CHR ''j'')) ` {1..<11}"
    by (simp add: image_image sourceJob_def)
  have inj: "replicate (Suc i) (CHR ''j'') \<in> (\<lambda>i. replicate (Suc i) (CHR ''j'')) ` {1..<11} \<longleftrightarrow>
      1 \<le> i \<and> i < 11" for i
    by (auto simp: image_iff)
  have hd11: "[0..<11] = 0 # [1..<11]"
    by (simp add: upt_conv_Cons del: upt_Suc)
  have rest: "filter (\<lambda>d. internal_id d \<notin> (\<lambda>i. replicate (Suc i) (CHR ''j'')) ` {1..<11})
      (map sourceJob [1..<11]) = []"
    by (auto simp: filter_empty_conv sourceJob_def image_iff)
  have w: "works (fst (deleteWorkForFile elevenJobs ''src1'')) = [sourceJob 0]"
    unfolding deleteWorkForFile_works elevenJobs_listing ids
    using inj [of 0] rest
    by (simp add: elevenJobs_def hd11 sourceJob_def del: upt_Suc)
  have c: "counters (fst (deleteWorkForFile elevenJobs ''src1'')) ''j'' =
     Some \<lparr>import_expected_number = 0, import_processed_number = 0\<rparr>"
    unfolding deleteWorkForFile_counters elevenJobs_listing ids
    using inj [of 0]
    by (simp add: elevenJobs_def hd11 del: upt_Suc)
  show ?thesis
    using w c by (simp add: sourceJob_def)
qed

section \<open>Export progress projection\<close>

text \<open>
  C8. \<open>loadExportWorksAsProgressFiles\<close> takes the export-type jobs of the source, keeps the
  10 most recent ones, newest first (no job left out is newer than a job kept), drops
  a job exactly when its \<open>status\<close> is \<open>complete\<close> and its \<open>errors\<close> are empty, and maps each
  remaining job to a descriptor with \<open>id\<close>, \<open>name\<close> (\<open>'Unknown'\<close> for an empty name),
  \<open>size = 0\<close>, \<open>lastModified\<close>, \<open>uploadStatus = status\<close> and
  \<open>metaData = {messages, errors}\<close>; the stores are returned as they were.
\<close>

theorem loadExportWorksAsProgressFiles_projection:
  fixes st :: state and sourceId :: string
  defines "candidates \<equiv> filter (\<lambda>w. entity_type w = ENTITY_TYPE_WORK \<and>
      event_source_id w = sourceId \<and> event_type w = CONNECTOR_INTERNAL_EXPORT_FILE) (works st)"
  defines "recent \<equiv> take 10 (rev (sort_key timestamp candidates))"
  shows "loadExportWorksAsProgressFiles toDate sinceNowInMinutes st sourceId =
           (st, map (workToExportFile toDate sinceNowInMinutes)
                  (filter (\<lambda>w. \<not> (status w = Complete \<and> errors w = [])) recent)) \<and>
         sorted (rev (map timestamp recent)) \<and>
         set recent \<subseteq> set candidates \<and>
         length recent = min 10 (length candidates) \<and>
         (\<forall>c \<in> set candidates. c \<notin> set recent \<longrightarrow>
            (\<forall>r \<in> set recent. timestamp c \<le> timestamp r)) \<and>
         ef_id (workToExportFile toDate sinceNowInMinutes w) = internal_id w \<and>
         ef_name (workToExportFile toDate sinceNowInMinutes w) =
           (if name w \<noteq> [] then name w else ''Unknown'') \<and>
         ef_size (workToExportFile toDate sinceNowInMinutes w) = 0 \<and>
         ef_lastModified (workToExportFile toDate sinceNowInMinutes w) = toDate (updated_at w) \<and>
         ef_uploadStatus (workToExportFile toDate sinceNowInMinutes w) = status w \<and>
         ef_metaData (workToExportFile toDate sinceNowInMinutes w) =
           \<lparr>md_messages = messages w, md_errors = errors w\<rparr>"
proof -
  have "loadExportWorksAsProgressFiles toDate sinceNowInMinutes st sourceId =
           (st, map (workToExportFile toDate sinceNowInMinutes)
                  (filter (\<lambda>w. \<not> (status w = Complete \<and> errors w = [])) recent))"
    unfolding loadExportWorksAsProgressFiles_def Let_def worksForSource_export
      recent_def candidates_def
    by (simp cong: filter_cong)
  moreover note newest_first [where xs = candidates and n = 10, folded recent_def]
  ultimately show ?thesis
    by (simp add: workToExportFile_def)
qed

theorem loadExportWorksAsProgressFiles_projection_witness:
  "map ef_id (snd (loadExportWorksAsProgressFiles (\<lambda>t. 0) (\<lambda>t. 0) exportState ''src1'')) =
     [''c'', ''b''] \<and>
   fst (loadExportWorksAsProgressFiles (\<lambda>t. 0) (\<lambda>t. 0) exportState ''src1'') = exportState"
proof -
  have "sort_key timestamp (works exportState) = works exportState"
    by (simp add: exportState_def exportJob_def)
  then show ?thesis
    using loadExportWorksAsProgressFiles_projection [of "\<lambda>t. 0" "\<lambda>t. 0" exportState "''src1''"]
    by (simp add: exportState_def exportJob_def ENTITY_TYPE_WORK_def
        CONNECTOR_INTERNAL_EXPORT_FILE_def workToExportFile_def)
qed

section \<open>Status transitions\<close>

text \<open>
  C2 (as amended). For every job and every sequence of \<open>createWork\<close>, \<open>updateReceivedTime\<close>,
  \<open>updateProcessedTime\<close> and \<open>reportActionImport\<close> calls, on this job or on others, in which
  no \<open>createWork\<close> is given the job's id again and no \<open>updateReceivedTime\<close> is applied to
  the job while its status is \<open>complete\<close>, the job's status only moves forward along
  \<open>wait\<close>, \<open>progress\<close>, \<open>complete\<close>. A call of \<open>updateReceivedTime\<close> on an existing job sets
  the status to \<open>progress\<close> whatever it was, so on a \<open>complete\<close> job it sets it back.
\<close>

theorem status_forward_except_received:
  "(noRegress dm st ops k \<and> k \<notin> set (createdIds ops) \<and>
    jobRecord st k = Some w \<and> jobRecord (runOps dm st ops) k = Some w' \<longrightarrow>
      statusRank (status w) \<le> statusRank (status w')) \<and>
   (jobRecord st workId = Some v \<longrightarrow>
      (\<exists>st' v'. updateReceivedTime st nw usr workId message = (st', Inr workId) \<and>
         jobRecord st' workId = Some v' \<and> status v' = Progress))"
proof (intro conjI impI)
  assume h: "noRegress dm st ops k \<and> k \<notin> set (createdIds ops) \<and>
    jobRecord st k = Some w \<and> jobRecord (runOps dm st ops) k = Some w'"
  then have "forwardAt st (runOps dm st ops) k"
    by (intro runOps_forward) simp_all
  then show "statusRank (status w) \<le> statusRank (status w')"
    using h by (simp add: forwardAt_def)
next
  assume job: "jobRecord st workId = Some v"
  let ?f = "updateReceivedScript nw message"
  have "\<exists>st'. elUpdate st workId ?f = Inr st' \<and> counters st' = counters st \<and>
      jobRecord st' workId = Some (?f v) \<and> (\<forall>k. k \<noteq> workId \<longrightarrow> jobRecord st' k = jobRecord st k)"
    by (rule elUpdate_jobRecord [OF updateReceivedScript_id job])
  then obtain st' where "elUpdate st workId ?f = Inr st'" "jobRecord st' workId = Some (?f v)"
    by blast
  then show "\<exists>st' v'. updateReceivedTime st nw usr workId message = (st', Inr workId) \<and>
         jobRecord st' workId = Some v' \<and> status v' = Progress"
    by (simp add: updateReceivedTime_def updateReceivedScript_fields)
qed

theorem status_forward_except_received_witness:
  "noRegress exampleDateMath (exampleState 1 0) mixedOps ''w1'' \<and>
   ''w1'' \<notin> set (createdIds mixedOps) \<and>
   jobRecord (exampleState 1 0) ''w1'' = Some exampleJob \<and>
   status exampleJob = Progress \<and>
   (\<exists>w'. jobRecord (runOps exampleDateMath (exampleState 1 0) mixedOps) ''w1'' = Some w' \<and>
      status w' = Complete \<and> statusRank (status exampleJob) \<le> statusRank (status w')) \<and>
   (\<exists>st' v'. updateReceivedTime (exampleState 1 0) 12 exampleUser ''w1'' None = (st', Inr ''w1'') \<and>
      jobRecord st' ''w1'' = Some v' \<and> status v' = Progress)"
proof -
  have a: "noRegress exampleDateMath (exampleState 1 0) mixedOps ''w1''"
    and c: "map_option status (jobRecord (runOps exampleDateMath (exampleState 1 0) mixedOps) ''w1'') =
      Some Complete"
    by (simp_all add: mixedOps_def runOps_def createWork_eq deleteOldCompletedWorks_def
        scanLoop_nothing matchQuery_def retentionQuery_def newWork_def
        updateReceivedTime_def updateProcessedTime_def isWorkCompleted_def redisGetWork_def
        reportActionImport_def redisUpdateWorkFigures_def reportActionWrite_def
        elUpdate_def elIndex_def redisCreateWork_def
        updateReceivedScript_def updateProcessedScript_def reportActionScript_def
        isNotEmptyField_def exampleState_def exampleJob_def exampleConnector_def
        exampleUser_def jobRecord_def Let_def)
  have b: "''w1'' \<notin> set (createdIds mixedOps)"
    by (simp add: mixedOps_def)
  have s: "status exampleJob = Progress"
    by (simp add: exampleJob_def)
  from c obtain w' where w': "jobRecord (runOps exampleDateMath (exampleState 1 0) mixedOps) ''w1'' =
      Some w'" and sw': "status w' = Complete"
    by auto
  have fwd: "statusRank (status exampleJob) \<le> statusRank (status w')"
    using status_forward_except_received [of exampleDateMath "exampleState 1 0" mixedOps "''w1''"
        exampleJob w' "''w1''" exampleJob 12 exampleUser None]
      a b w' exampleState_job
    by simp
  have recv: "\<exists>st' v'. updateReceivedTime (exampleState 1 0) 12 exampleUser ''w1'' None =
      (st', Inr ''w1'') \<and> jobRecord st' ''w1'' = Some v' \<and> status v' = Progress"
    using status_forward_except_received [of exampleDateMath "exampleState 1 0" mixedOps "''w1''"
        exampleJob w' "''w1''" exampleJob 12 exampleUser None]
      exampleState_job
    by simp
  show ?thesis
    using a b exampleState_job [of 1 0] s w' sw' fwd recv by blast
qed

text \<open>
  The specification has \<open>updateReceivedTime\<close> leave a \<open>complete\<close> job \<open>complete\<close>; the
  script sets it back to \<open>progress\<close>.
\<close>

theorem updateReceivedTime_regresses_counterexample:
  "map_option status (jobRecord completedState ''w1'') = Some Complete \<and>
   map_option status
     (jobRecord (fst (updateReceivedTime completedState 12 exampleUser ''w1'' None)) ''w1'') =
     Some Progress"
  by (simp add: updateReceivedTime_def elUpdate_def updateReceivedScript_def isNotEmptyField_def
      completedState_def completedJob_def exampleJob_def jobRecord_def Let_def)

section \<open>Completion under concurrent reports\<close>

text \<open>
  C1. For a job with its counter and any number of concurrent \<open>reportActionImport\<close> calls
  (on this job or on others, and nothing else running), in any interleaving of their
  store operations: at most one call on the job is told
  by the counter operation that the job is complete; the expected number is not
  changed; once the processed number has reached the expected number through these
  calls, one call has been told so; and when that call has made its update, the job's
  \<open>status\<close> is \<open>complete\<close> and its \<open>completed_number\<close> equals the expected number, and stays
  so whatever the other calls do.
\<close>

theorem reportActionImport_completes_once:
  assumes counter: "counters st wid = Some c0" and job: "jobRecord st wid = Some w0"
    and run: "runSchedule calls st sched = (st', phs)"
  shows "(\<forall>i < length calls. \<forall>j < length calls.
            cl_workId (calls ! i) = wid \<and> cl_workId (calls ! j) = wid \<and>
            toldComplete (phs ! i) \<and> toldComplete (phs ! j) \<longrightarrow> i = j) \<and>
         (\<exists>c w. counters st' wid = Some c \<and> jobRecord st' wid = Some w \<and>
            import_expected_number c = import_expected_number c0 \<and>
            (import_processed_number c0 < import_expected_number c0 \<and>
             import_expected_number c0 \<le> import_processed_number c \<longrightarrow>
               (\<exists>i < length calls. cl_workId (calls ! i) = wid \<and> toldComplete (phs ! i))) \<and>
            (\<forall>i < length calls.
               cl_workId (calls ! i) = wid \<and> toldComplete (phs ! i) \<and> finished (phs ! i) \<longrightarrow>
               status w = Complete \<and> completed_number w = import_expected_number c0))"
proof -
  let ?e = "import_expected_number c0" and ?p0 = "import_processed_number c0"
  have "raceInv wid ?e ?p0 calls (st', phs)"
    using runSchedule_raceInv [OF counter job, of calls sched] run by simp
  then obtain c w where len: "length phs = length calls"
    and cnt: "counters st' wid = Some c" and jb: "jobRecord st' wid = Some w"
    and ex: "import_expected_number c = ?e"
    and ok: "okEach wid ?e ?p0 calls phs (import_processed_number c) w"
    and dt: "distinctTotals wid calls phs"
    and cov: "covered wid ?p0 calls phs (import_processed_number c)"
    unfolding raceInv_def by auto
  have told: "answer (phs ! i) = Some (True, ?e)"
    if "i < length calls" "cl_workId (calls ! i) = wid" "toldComplete (phs ! i)" for i
  proof -
    from that(3) obtain t where t: "answer (phs ! i) = Some (True, t)"
      unfolding toldComplete_answer by blast
    then have "t = ?e" using ok that(1,2) unfolding okEach_def by blast
    then show ?thesis using t by simp
  qed
  have once: "\<forall>i < length calls. \<forall>j < length calls.
            cl_workId (calls ! i) = wid \<and> cl_workId (calls ! j) = wid \<and>
            toldComplete (phs ! i) \<and> toldComplete (phs ! j) \<longrightarrow> i = j"
  proof (intro allI impI)
    fix i j assume i: "i < length calls" and j: "j < length calls"
      and h: "cl_workId (calls ! i) = wid \<and> cl_workId (calls ! j) = wid \<and>
            toldComplete (phs ! i) \<and> toldComplete (phs ! j)"
    have "answer (phs ! i) = Some (True, ?e)" "answer (phs ! j) = Some (True, ?e)"
      using told i j h by blast+
    then show "i = j"
      using dt i j h unfolding distinctTotals_def by blast
  qed
  have reached: "\<exists>i < length calls. cl_workId (calls ! i) = wid \<and> toldComplete (phs ! i)"
    if "?p0 < ?e \<and> ?e \<le> import_processed_number c"
  proof -
    from cov that obtain i b where i: "i < length calls" "cl_workId (calls ! i) = wid"
      and a: "answer (phs ! i) = Some (b, ?e)"
      unfolding covered_def by blast
    then have "b" using ok unfolding okEach_def by blast
    then have "toldComplete (phs ! i)"
      using a unfolding toldComplete_answer by auto
    then show ?thesis using i by blast
  qed
  have final: "\<forall>i < length calls.
               cl_workId (calls ! i) = wid \<and> toldComplete (phs ! i) \<and> finished (phs ! i) \<longrightarrow>
               status w = Complete \<and> completed_number w = ?e"
  proof (intro allI impI)
    fix i assume i: "i < length calls"
      and h: "cl_workId (calls ! i) = wid \<and> toldComplete (phs ! i) \<and> finished (phs ! i)"
    have "answer (phs ! i) = Some (True, ?e)" using told i h by blast
    then show "status w = Complete \<and> completed_number w = ?e"
      using ok i h unfolding okEach_def by blast
  qed
  show ?thesis
    using once cnt jb ex reached final by blast
qed

theorem reportActionImport_completes_once_witness:
  "counters (exampleState 2 0) ''w1'' =
     Some \<lparr>import_expected_number = 2, import_processed_number = 0\<rparr> \<and>
   jobRecord (exampleState 2 0) ''w1'' = Some exampleJob \<and>
   snd (runSchedule [callA, callB] (exampleState 2 0) [0, 1, 1, 0]) =
     [Finished False 1, Finished True 2] \<and>
   (\<exists>w. jobRecord (fst (runSchedule [callA, callB] (exampleState 2 0) [0, 1, 1, 0])) ''w1'' =
      Some w \<and> status w = Complete \<and> completed_number w = 2)"
proof -
  let ?run = "runSchedule [callA, callB] (exampleState 2 0) [0, 1, 1, 0]"
  have c: "counters (exampleState 2 0) ''w1'' =
      Some \<lparr>import_expected_number = 2, import_processed_number = 0\<rparr>"
    by (simp add: exampleState_def)
  have r: "?run = (fst ?run, [Finished False 1, Finished True 2])"
    using race_example_phases by (simp add: prod_eq_iff)
  have b: "cl_workId ([callA, callB] ! 1) = ''w1''"
    by (simp add: callB_def)
  from reportActionImport_completes_once [OF c exampleState_job r]
  obtain w where j: "jobRecord (fst ?run) ''w1'' = Some w"
    and fin: "\<forall>i < length [callA, callB].
        cl_workId ([callA, callB] ! i) = ''w1'' \<and>
        toldComplete ([Finished False 1, Finished True 2] ! i) \<and>
        finished ([Finished False 1, Finished True 2] ! i) \<longrightarrow>
        status w = Complete \<and>
        completed_number w =
          import_expected_number \<lparr>import_expected_number = 2, import_processed_number = 0\<rparr>"
    by blast
  from fin [rule_format, of 1] b have "status w = Complete \<and> completed_number w = 2"
    by simp
  then show ?thesis
    using c exampleState_job race_example_phases j by simp
qed

section \<open>Retention scan\<close>

text \<open>
  C7. The retention scan deletes only jobs of the connector whose \<open>status\<close> is \<open>complete\<close>
  and whose \<open>completed_time\<close> is at or before the horizon (\<open>scanLoop_deletes\<close>), and all
  of them when no two of them share a \<open>completed_time\<close>
  (\<open>deleteOldCompletedWorks_exact_untied\<close>). It moves
  its cursor to the \<open>completed_time\<close> of the last hit of a page and the next page starts
  strictly after it, so jobs tied with that hit and not on the page are passed over:
  of 501 jobs of one connector completed at the same time before the horizon, one is
  still stored after the scan.
\<close>

theorem deleteOldCompletedWorks_skips_tie:
  "works (deleteOldCompletedWorks exampleDateMath manyDoneJobs exampleConnector) = [doneJob 0] \<and>
   matchQuery exampleDateMath (retentionQuery exampleConnector) (doneJob 0) \<and>
   length (filter (matchQuery exampleDateMath (retentionQuery exampleConnector))
     (works manyDoneJobs)) = 501"
proof -
  let ?q = "retentionQuery exampleConnector"
  define page1 where
    "page1 = map (\<lambda>w. (w, sortValue w)) (map doneJob (rev [1..<Suc paginationCount]))"
  define st1 where "st1 = deletePage manyDoneJobs page1"
  have pos: "0 < paginationCount"
    by (simp add: paginationCount_def)
  have search1: "el_search exampleDateMath manyDoneJobs ?q paginationCount (cursorOf None) = page1"
    unfolding page1_def using manyDone_first_page by (simp add: cursorOf_def truthy_def)
  have len1: "length page1 \<noteq> 0"
    using pos by (simp add: page1_def)
  have "[1..<Suc paginationCount] \<noteq> []"
    using pos by simp
  then have "last page1 = (doneJob 1, sortValue (doneJob 1))"
    using pos by (simp add: page1_def last_map last_rev rev_map [symmetric] hd_map del: upt_Suc)
  then have last1: "snd (last page1) = 50"
    by (simp add: doneJob_sortValue)
  have works1: "works st1 = [doneJob 0]"
    unfolding st1_def page1_def by (rule manyDone_after_first_page)
  have first: "scanLoop exampleDateMath ?q paginationCount manyDoneJobs None =
      scanLoop exampleDateMath ?q paginationCount st1 (Some 50)"
    by (subst scanLoop.simps) (simp only: search1 Let_def len1 if_False last1 st1_def)
  have second: "scanLoop exampleDateMath ?q paginationCount st1 (Some 50) = st1"
    by (subst scanLoop.simps) (simp add: manyDone_second_page [OF works1] Let_def)
  have "length (filter (matchQuery exampleDateMath ?q) (works manyDoneJobs)) = 501"
    by (simp add: manyDoneJobs_def doneJobs_filter paginationCount_def del: upt_Suc)
  then show ?thesis
    using first second works1
    by (simp add: deleteOldCompletedWorks_def doneJob_match)
qed

end
